theory Spec2Isabelle
  imports Main "HOL-Library.AList"
begin

section \<open>Device inventory tool\<close>

text \<open>
  A shallow embedding of \<^verbatim>\<open>task-3/inventory_tool.py\<close>: the loader
  \<^verbatim>\<open>read_inventory\<close>, the finder \<^verbatim>\<open>get_device_data\<close>, the mutator
  \<^verbatim>\<open>add_device\<close>, the persister \<^verbatim>\<open>save_inventory\<close>, the parser built by
  \<^verbatim>\<open>setup_cli\<close> and the entry point under \<^verbatim>\<open>__main__\<close>.

  Conventions.
  \<^item> A Python \<^verbatim>\<open>str\<close> is a \<^typ>\<open>string\<close>; one \<^typ>\<open>char\<close> stands for one
    character of the Python string.
  \<^item> An exception is a value \<open>Inl e\<close> of a sum type, a normal return is \<open>Inr v\<close>.
  \<^item> Files are text; encoding and decoding are taken to be inverse to each other, a
    path that exists can be opened, and writing to an open file does not fail.
  \<^item> The program leaves its work to the standard modules \<^verbatim>\<open>csv\<close> and
    \<^verbatim>\<open>argparse\<close>. What they do for the calls the program makes is part of the
    embedding, written after CPython 3.11: the writer and the reader of the dialect
    \<^verbatim>\<open>excel\<close>, \<^verbatim>\<open>DictWriter\<close>, \<^verbatim>\<open>DictReader\<close>, and the argument parser for
    the options \<^verbatim>\<open>setup_cli\<close> registers.
\<close>

subsection \<open>Data model\<close>

text \<open>
  A device is a Python \<^verbatim>\<open>dict\<close>. Its text keys are bound to a \<^verbatim>\<open>str\<close>
  (\<open>Some s\<close>) or to \<^verbatim>\<open>None\<close> (\<open>None\<close>), kept in insertion order in \<open>items\<close>.
  The only other key the program can produce is the key \<^verbatim>\<open>None\<close>, under which
  \<^verbatim>\<open>csv.DictReader\<close> stores the list of cells of a row that is longer than the
  header (its \<^verbatim>\<open>restkey\<close>); \<open>surplus\<close> holds that list when the key is present.
\<close>

record device =
  items :: "(string \<times> string option) list"
  surplus :: "string list option"

abbreviation dict :: "(string \<times> string option) list \<Rightarrow> device" where
  "dict kvs \<equiv> \<lparr>items = kvs, surplus = None\<rparr>"

datatype error = FileNotFoundError | KeyError | ValueError | CsvError

text \<open>The keys of a dict; \<open>None\<close> is the key \<^verbatim>\<open>None\<close>.\<close>

definition keys :: "device \<Rightarrow> string option set" where
  "keys d = Some ` fst ` set (items d) \<union> (case surplus d of None \<Rightarrow> {} | Some _ \<Rightarrow> {None})"

text \<open>\<^verbatim>\<open>d[k]\<close> for a text key: \<^verbatim>\<open>KeyError\<close> when the key is absent.\<close>

definition getitem :: "device \<Rightarrow> string \<Rightarrow> error + string option" where
  "getitem d k = (case map_of (items d) k of None \<Rightarrow> Inl KeyError | Some v \<Rightarrow> Inr v)"

text \<open>\<^verbatim>\<open>d.get(k, default)\<close> for a text key.\<close>

definition get_default :: "device \<Rightarrow> string \<Rightarrow> string option \<Rightarrow> string option" where
  "get_default d k dflt = (case map_of (items d) k of None \<Rightarrow> dflt | Some v \<Rightarrow> v)"

subsection \<open>Finder\<close>

text \<open>
  \<^verbatim>\<open>
  for device in inventory:
      if device["Name"] == device_name:
          return device
  return None
  \<close>
  The subscript raises before the comparison is made; a value \<^verbatim>\<open>None\<close> is not
  equal to any string.
\<close>

fun get_device_data :: "device list \<Rightarrow> string \<Rightarrow> error + device option" where
  "get_device_data [] device_name = Inr None"
| "get_device_data (device # inventory) device_name =
     (case getitem device ''Name'' of
        Inl e \<Rightarrow> Inl e
      | Inr v \<Rightarrow>
          if v = Some device_name then Inr (Some device)
          else get_device_data inventory device_name)"

subsection \<open>Mutator\<close>

text \<open>
  \<^verbatim>\<open>inventory.append(new_device)\<close> changes the list object the caller passed.
  Lists live in a store; a variable holds the address of its list, and the call returns
  the store in which the list at that address has grown by one element.
\<close>

type_synonym addr = nat
type_synonym store = "addr \<Rightarrow> device list"

definition add_device :: "store \<Rightarrow> addr \<Rightarrow> device \<Rightarrow> store" where
  "add_device h inventory new_device = h(inventory := h inventory @ [new_device])"

subsection \<open>Text files\<close>

text \<open>
  The file system maps a path to the text stored under it. Opening a path for reading
  that is not there raises \<^verbatim>\<open>FileNotFoundError\<close>; opening for writing creates or
  truncates the file.
\<close>

type_synonym files = "string \<rightharpoonup> string"

abbreviation CR :: char where "CR \<equiv> CHR 0x0D"
abbreviation LF :: char where "LF \<equiv> CHR 0x0A"
abbreviation QUOTE :: char where "QUOTE \<equiv> CHR 0x22"
abbreviation COMMA :: char where "COMMA \<equiv> CHR 0x2C"

subsection \<open>The csv writer, dialect excel\<close>

text \<open>
  \<^verbatim>\<open>csv.writer\<close> with the default dialect: delimiter comma, quote character
  \<^verbatim>\<open>"\<close>, doubled inside a quoted field, \<^verbatim>\<open>QUOTE_MINIMAL\<close>, no escape character,
  line terminator CR LF. A field is quoted when it holds the delimiter, the quote
  character or a character of the line terminator. \<^verbatim>\<open>None\<close> is written as the empty
  field. A record of one empty field is written as \<^verbatim>\<open>""\<close>.
\<close>

definition lineterminator :: string where
  "lineterminator = [CR, LF]"

definition needs_quotes :: "string \<Rightarrow> bool" where
  "needs_quotes s \<longleftrightarrow> (\<exists>c \<in> set s. c = COMMA \<or> c = QUOTE \<or> c \<in> set lineterminator)"

fun double_quotes :: "string \<Rightarrow> string" where
  "double_quotes [] = []"
| "double_quotes (c # cs) = (if c = QUOTE then QUOTE # QUOTE # double_quotes cs
                            else c # double_quotes cs)"

definition csv_field :: "string option \<Rightarrow> string" where
  "csv_field v =
     (case v of
        None \<Rightarrow> []
      | Some s \<Rightarrow> if needs_quotes s then QUOTE # double_quotes s @ [QUOTE] else s)"

fun join_fields :: "string list \<Rightarrow> string" where
  "join_fields [] = []"
| "join_fields [f] = f"
| "join_fields (f # g # fs) = f @ COMMA # join_fields (g # fs)"

definition csv_record :: "string option list \<Rightarrow> string" where
  "csv_record row =
     (let rec = join_fields (map csv_field row)
      in (if row \<noteq> [] \<and> rec = [] then [QUOTE, QUOTE] else rec) @ lineterminator)"

subsection \<open>Persister\<close>

definition fieldnames :: "string list" where
  "fieldnames = [''Name'', ''Management IP'', ''Username'', ''Password'', ''Description'']"

text \<open>
  \<^verbatim>\<open>DictWriter._dict_to_list\<close> with \<^verbatim>\<open>extrasaction="raise"\<close> and
  \<^verbatim>\<open>restval=""\<close>, the defaults the program leaves in place:
  \<^verbatim>\<open>
  wrong_fields = rowdict.keys() - self.fieldnames
  if wrong_fields:
      raise ValueError(...)
  return (rowdict.get(key, self.restval) for key in self.fieldnames)
  \<close>
\<close>

definition dict_to_list :: "device \<Rightarrow> error + string option list" where
  "dict_to_list rowdict =
     (if keys rowdict - Some ` set fieldnames \<noteq> {} then Inl ValueError
      else Inr (map (\<lambda>key. get_default rowdict key (Some [])) fieldnames))"

text \<open>
  The writer appends to the text of the open file. \<^verbatim>\<open>writerows\<close> converts and
  writes one record after the other, so the rows in front of a record that raises
  have been written.
\<close>

definition writerow :: "device \<Rightarrow> string \<Rightarrow> (error + unit) \<times> string" where
  "writerow rowdict out =
     (case dict_to_list rowdict of
        Inl e \<Rightarrow> (Inl e, out)
      | Inr row \<Rightarrow> (Inr (), out @ csv_record row))"

definition writeheader :: "string \<Rightarrow> (error + unit) \<times> string" where
  "writeheader out = writerow (dict (zip fieldnames (map Some fieldnames))) out"

fun writerows :: "device list \<Rightarrow> string \<Rightarrow> (error + unit) \<times> string" where
  "writerows [] out = (Inr (), out)"
| "writerows (rowdict # rowdicts) out =
     (case writerow rowdict out of
        (Inl e, out') \<Rightarrow> (Inl e, out')
      | (Inr _, out') \<Rightarrow> writerows rowdicts out')"

text \<open>
  \<^verbatim>\<open>
  with open(filename, "w", newline="") as file:
      writer = csv.DictWriter(file, fieldnames=fieldnames)
      writer.writeheader()
      writer.writerows(inventory)
  \<close>
  The file is empty once opened. Leaving the \<^verbatim>\<open>with\<close> block, also by an
  exception, closes the file with what was written so far.
\<close>

definition save_inventory :: "string \<Rightarrow> device list \<Rightarrow> files \<Rightarrow> (error + unit) \<times> files" where
  "save_inventory filename inventory fs =
     (case writeheader [] of
        (Inl e, out) \<Rightarrow> (Inl e, fs(filename \<mapsto> out))
      | (Inr _, out) \<Rightarrow>
          (case writerows inventory out of (r, out') \<Rightarrow> (r, fs(filename \<mapsto> out'))))"

subsection \<open>Reading a text file\<close>

text \<open>
  \<^verbatim>\<open>open(filename, "r")\<close> leaves \<^verbatim>\<open>newline\<close> at its default, so the text is
  read with universal newlines: CR LF and a single CR both arrive as LF, anywhere in the
  file. Iterating over the file yields its lines, each with its closing LF (the last
  line has none when the text does not end with one).
\<close>

fun universal_newlines :: "string \<Rightarrow> string" where
  "universal_newlines [] = []"
| "universal_newlines (c # cs) =
     (if c = CR then LF # universal_newlines (if cs \<noteq> [] \<and> hd cs = LF then tl cs else cs)
      else c # universal_newlines cs)"

fun split_lines :: "string \<Rightarrow> string list" where
  "split_lines [] = []"
| "split_lines (c # cs) =
     (if c = LF then [LF] # split_lines cs
      else (case split_lines cs of [] \<Rightarrow> [[c]] | l # ls \<Rightarrow> (c # l) # ls))"

subsection \<open>The csv reader, dialect excel\<close>

text \<open>
  The state machine of \<^verbatim>\<open>csv.reader\<close> (\<^verbatim>\<open>parse_process_char\<close> in CPython's
  \<^verbatim>\<open>_csv.c\<close>, version 3.11) for the default dialect: not strict, no escape character,
  \<^verbatim>\<open>skipinitialspace\<close> off. Without an escape character the three escape states are
  never entered and are left out. \<open>EOL\<close> is the end-of-line marker the reader feeds to
  the machine after the last character of every line.
\<close>

datatype parser_state =
  START_RECORD | START_FIELD | IN_FIELD | IN_QUOTED_FIELD | QUOTE_IN_QUOTED_FIELD | EAT_CRNL

datatype input = Char char | EOL

record reader =
  state :: parser_state
  rec_fields :: "string list"
  field :: string

text \<open>\<open>rec_fields\<close> is the list \<^verbatim>\<open>fields\<close> of the reader object.\<close>

definition field_limit :: nat where
  "field_limit = 131072"

definition parse_reset :: reader where
  "parse_reset = \<lparr>state = START_RECORD, rec_fields = [], field = []\<rparr>"

definition parse_save_field :: "reader \<Rightarrow> reader" where
  "parse_save_field r = r\<lparr>rec_fields := rec_fields r @ [field r], field := []\<rparr>"

definition parse_add_char :: "reader \<Rightarrow> char \<Rightarrow> error + reader" where
  "parse_add_char r c =
     (if length (field r) \<ge> field_limit then Inl CsvError
      else Inr (r\<lparr>field := field r @ [c]\<rparr>))"

definition is_newline :: "input \<Rightarrow> bool" where
  "is_newline c \<longleftrightarrow> c = Char LF \<or> c = Char CR"

text \<open>The case \<^verbatim>\<open>START_FIELD\<close>, which \<^verbatim>\<open>START_RECORD\<close> falls through to.\<close>

definition start_field :: "reader \<Rightarrow> input \<Rightarrow> error + reader" where
  "start_field r c =
     (if is_newline c \<or> c = EOL then
        Inr ((parse_save_field r)\<lparr>state := (if c = EOL then START_RECORD else EAT_CRNL)\<rparr>)
      else if c = Char QUOTE then Inr (r\<lparr>state := IN_QUOTED_FIELD\<rparr>)
      else if c = Char COMMA then Inr (parse_save_field r)
      else (case c of
              Char x \<Rightarrow>
                (case parse_add_char r x of
                   Inl e \<Rightarrow> Inl e
                 | Inr r' \<Rightarrow> Inr (r'\<lparr>state := IN_FIELD\<rparr>))
            | EOL \<Rightarrow> Inr r))"

definition parse_process_char :: "reader \<Rightarrow> input \<Rightarrow> error + reader" where
  "parse_process_char r c =
     (case state r of
        START_RECORD \<Rightarrow>
          if c = EOL then Inr r
          else if is_newline c then Inr (r\<lparr>state := EAT_CRNL\<rparr>)
          else start_field (r\<lparr>state := START_FIELD\<rparr>) c
      | START_FIELD \<Rightarrow> start_field r c
      | IN_FIELD \<Rightarrow>
          if is_newline c \<or> c = EOL then
            Inr ((parse_save_field r)\<lparr>state := (if c = EOL then START_RECORD else EAT_CRNL)\<rparr>)
          else if c = Char COMMA then Inr ((parse_save_field r)\<lparr>state := START_FIELD\<rparr>)
          else (case c of Char x \<Rightarrow> parse_add_char r x | EOL \<Rightarrow> Inr r)
      | IN_QUOTED_FIELD \<Rightarrow>
          if c = EOL then Inr r
          else if c = Char QUOTE then Inr (r\<lparr>state := QUOTE_IN_QUOTED_FIELD\<rparr>)
          else (case c of Char x \<Rightarrow> parse_add_char r x | EOL \<Rightarrow> Inr r)
      | QUOTE_IN_QUOTED_FIELD \<Rightarrow>
          if c = Char QUOTE then
            (case parse_add_char r QUOTE of
               Inl e \<Rightarrow> Inl e
             | Inr r' \<Rightarrow> Inr (r'\<lparr>state := IN_QUOTED_FIELD\<rparr>))
          else if c = Char COMMA then Inr ((parse_save_field r)\<lparr>state := START_FIELD\<rparr>)
          else if is_newline c \<or> c = EOL then
            Inr ((parse_save_field r)\<lparr>state := (if c = EOL then START_RECORD else EAT_CRNL)\<rparr>)
          else (case c of
                  Char x \<Rightarrow>
                    (case parse_add_char r x of
                       Inl e \<Rightarrow> Inl e
                     | Inr r' \<Rightarrow> Inr (r'\<lparr>state := IN_FIELD\<rparr>))
                | EOL \<Rightarrow> Inr r)
      | EAT_CRNL \<Rightarrow>
          if is_newline c then Inr r
          else if c = EOL then Inr (r\<lparr>state := START_RECORD\<rparr>)
          else Inl CsvError)"

text \<open>The characters of one line, in order.\<close>

fun feed :: "reader \<Rightarrow> string \<Rightarrow> error + reader" where
  "feed r [] = Inr r"
| "feed r (c # cs) =
     (case parse_process_char r (Char c) of Inl e \<Rightarrow> Inl e | Inr r' \<Rightarrow> feed r' cs)"

text \<open>
  \<^verbatim>\<open>Reader_iternext\<close>, called until the lines are used up: a record takes lines
  until the machine is back in \<^verbatim>\<open>START_RECORD\<close> after the end of a line; the next
  record starts from the reset machine. When the lines end inside a record, what has
  been read of it is returned if a field is under way or a quoted field is open. An
  error ends the iteration, and with it the caller's loop.
\<close>

fun read_records :: "reader \<Rightarrow> string list \<Rightarrow> error + string list list" where
  "read_records r [] =
     (if field r \<noteq> [] \<or> state r = IN_QUOTED_FIELD then Inr [rec_fields (parse_save_field r)]
      else Inr [])"
| "read_records r (line # lines) =
     (case feed r line of
        Inl e \<Rightarrow> Inl e
      | Inr r1 \<Rightarrow>
          (case parse_process_char r1 EOL of
             Inl e \<Rightarrow> Inl e
           | Inr r2 \<Rightarrow>
               if state r2 = START_RECORD then
                 (case read_records parse_reset lines of
                    Inl e \<Rightarrow> Inl e
                  | Inr recs \<Rightarrow> Inr (rec_fields r2 # recs))
               else read_records r2 lines))"

subsection \<open>Loader\<close>

text \<open>
  \<^verbatim>\<open>csv.DictReader\<close> with its defaults \<^verbatim>\<open>restkey=None\<close>, \<^verbatim>\<open>restval=None\<close>:
  \<^verbatim>\<open>
  d = dict(zip(self.fieldnames, row))
  lf = len(self.fieldnames)
  lr = len(row)
  if lf < lr:
      d[self.restkey] = row[lf:]
  elif lf > lr:
      for key in self.fieldnames[lr:]:
          d[key] = self.restval
  \<close>
  Assigning to a key that is present replaces its value and keeps its place.
\<close>

definition row_dict :: "string list \<Rightarrow> string list \<Rightarrow> device" where
  "row_dict fns row =
     (let d = fold (\<lambda>(k, v). AList.update k (Some v)) (zip fns row) []
      in if length fns < length row then \<lparr>items = d, surplus = Some (drop (length fns) row)\<rparr>
         else if length fns > length row then
           dict (fold (\<lambda>key. AList.update key None) (drop (length row) fns) d)
         else dict d)"

text \<open>
  The first record the reader yields is the header, also when it is empty; of the
  others the empty ones (blank lines) are skipped.
\<close>

definition dict_reader :: "string list list \<Rightarrow> device list" where
  "dict_reader recs =
     (case recs of
        [] \<Rightarrow> []
      | fns # rows \<Rightarrow> map (row_dict fns) (filter (\<lambda>row. row \<noteq> []) rows))"

text \<open>
  \<^verbatim>\<open>
  inventory_data_list = []
  with open(filename, "r") as file:
      for row in csv.DictReader(file):
          inventory_data_list.append(row)
  return inventory_data_list
  \<close>
\<close>

definition read_inventory :: "string \<Rightarrow> files \<Rightarrow> error + device list" where
  "read_inventory filename fs =
     (case fs filename of
        None \<Rightarrow> Inl FileNotFoundError
      | Some text \<Rightarrow>
          (case read_records parse_reset (split_lines (universal_newlines text)) of
             Inl e \<Rightarrow> Inl e
           | Inr recs \<Rightarrow> Inr (dict_reader recs)))"

subsection \<open>The command line\<close>

text \<open>
  \<^verbatim>\<open>setup_cli\<close> builds an \<^verbatim>\<open>argparse.ArgumentParser\<close> with one sub-command,
  \<^verbatim>\<open>add\<close>, whose five options are all required and store one string each. Every
  parser also has the options \<^verbatim>\<open>-h\<close> and \<^verbatim>\<open>--help\<close>. A parser is described by
  its table of option strings, in the order of registration; \<open>Store dest required\<close>
  is the action of \<^verbatim>\<open>add_argument("--dest", required=True)\<close>.
\<close>

datatype action = Help | Store string bool

type_synonym option_table = "(string \<times> action) list"

record parser =
  option_string_actions :: option_table
  subparsers :: "(string \<times> option_table) list"

definition setup_cli :: parser where
  "setup_cli =
     \<lparr>option_string_actions = [(''-h'', Help), (''--help'', Help)],
      subparsers =
        [(''add'',
          [(''-h'', Help), (''--help'', Help),
           (''--name'', Store ''name'' True),
           (''--ip'', Store ''ip'' True),
           (''--user'', Store ''user'' True),
           (''--password'', Store ''password'' True),
           (''--desc'', Store ''desc'' True)])]\<rparr>"

text \<open>
  The part of \<^verbatim>\<open>argparse\<close> (CPython 3.11) that \<^verbatim>\<open>parser.parse_args()\<close> runs
  for such a parser: prefix characters \<^verbatim>\<open>-\<close>, abbreviations allowed, no option that
  looks like a negative number, no file references, no mutually exclusive groups.

  \<^verbatim>\<open>_parse_optional\<close> decides for one argument string whether it is a positional
  argument or an option, and which: the string is the option string of an action, or an
  option string followed by \<^verbatim>\<open>=\<close> and a value, or an unambiguous abbreviation of a
  long option, or \<^verbatim>\<open>-h\<close> glued to more characters; a string that looks like a
  negative number or holds a space is positional; anything else that starts with
  \<^verbatim>\<open>-\<close> is an option the parser does not know. An option tuple is
  \<^verbatim>\<open>(action, option_string, sep, explicit_arg)\<close>.
\<close>

datatype option_tuple = Option_tuple "action option" string "string option" "string option"

datatype parsed_optional = Positional | Optional option_tuple | Ambiguous

abbreviation DASH :: char where "DASH \<equiv> CHR 0x2D"
abbreviation EQUALS :: char where "EQUALS \<equiv> CHR 0x3D"

definition startswith :: "string \<Rightarrow> string \<Rightarrow> bool" where
  "startswith s p \<longleftrightarrow> take (length p) s = p"

definition partition_eq :: "string \<Rightarrow> string \<times> string option \<times> string option" where
  "partition_eq s =
     (if EQUALS \<in> set s
      then (takeWhile (\<lambda>c. c \<noteq> EQUALS) s, Some [EQUALS], Some (tl (dropWhile (\<lambda>c. c \<noteq> EQUALS) s)))
      else (s, None, None))"

definition is_digit :: "char \<Rightarrow> bool" where
  "is_digit c \<longleftrightarrow> c \<in> set ''0123456789''"

definition negative_number :: "string \<Rightarrow> bool" where
  "negative_number s =
     (let t = (if s \<noteq> [] \<and> last s = LF then butlast s else s)
      in t \<noteq> [] \<and> hd t = DASH \<and>
         (let ds = takeWhile is_digit (tl t); r = dropWhile is_digit (tl t)
          in (ds \<noteq> [] \<and> r = []) \<or>
             (r \<noteq> [] \<and> hd r = CHR ''.'' \<and> tl r \<noteq> [] \<and> list_all is_digit (tl r))))"

definition get_option_tuples :: "option_table \<Rightarrow> string \<Rightarrow> option_tuple list" where
  "get_option_tuples table option_string =
     (if option_string ! 1 = DASH then
        (case partition_eq option_string of
           (option_prefix, sep, explicit_arg) \<Rightarrow>
             map (\<lambda>(s, a). Option_tuple (Some a) s sep explicit_arg)
                 (filter (\<lambda>(s, a). startswith s option_prefix) table))
      else
        concat (map (\<lambda>(s, a).
                  if s = take 2 option_string
                  then [Option_tuple (Some a) s (Some []) (Some (drop 2 option_string))]
                  else if startswith s option_string then [Option_tuple (Some a) s None None]
                  else []) table))"

definition parse_optional :: "option_table \<Rightarrow> string \<Rightarrow> parsed_optional" where
  "parse_optional table arg_string =
     (if arg_string = [] then Positional
      else if hd arg_string \<noteq> DASH then Positional
      else (case map_of table arg_string of
              Some a \<Rightarrow> Optional (Option_tuple (Some a) arg_string None None)
            | None \<Rightarrow>
                if length arg_string = 1 then Positional
                else (case partition_eq arg_string of
                        (option_string, sep, explicit_arg) \<Rightarrow>
                          (case (if sep = None then None else map_of table option_string) of
                             Some a \<Rightarrow> Optional (Option_tuple (Some a) option_string sep explicit_arg)
                           | None \<Rightarrow>
                               (case get_option_tuples table arg_string of
                                  [] \<Rightarrow>
                                    if negative_number arg_string then Positional
                                    else if CHR '' '' \<in> set arg_string then Positional
                                    else Optional (Option_tuple None arg_string None None)
                                | [t] \<Rightarrow> Optional t
                                | _ \<Rightarrow> Ambiguous)))))"

text \<open>
  The pattern of the argument strings: \<open>Arg\<close> for the letter \<^verbatim>\<open>A\<close> (an argument),
  \<open>Opt\<close> for \<^verbatim>\<open>O\<close> (an option) and \<open>Dash\<close> for \<^verbatim>\<open>-\<close> (the string
  \<^verbatim>\<open>--\<close>, after which everything is an argument). An ambiguous abbreviation is an
  error reported while the pattern is built, before any action is taken.
\<close>

datatype arg_class = Arg | Dash | Opt option_tuple

fun classify :: "option_table \<Rightarrow> string list \<Rightarrow> (string \<times> arg_class) list option" where
  "classify table [] = Some []"
| "classify table (s # rest) =
     (if s = ''--'' then Some ((s, Dash) # map (\<lambda>x. (x, Arg)) rest)
      else (case parse_optional table s of
              Ambiguous \<Rightarrow> None
            | Positional \<Rightarrow> map_option ((#) (s, Arg)) (classify table rest)
            | Optional t \<Rightarrow> map_option ((#) (s, Opt t)) (classify table rest)))"

text \<open>
  \<^verbatim>\<open>consume_optional\<close>: an option the parser does not know goes to the extras; a
  storing option takes its explicit argument, or else the next string, which must be an
  argument; the help action prints the help and exits as soon as it is taken. When
  \<^verbatim>\<open>-h\<close> is glued to more characters, these are read as further single-dash
  options (\<open>short_flags\<close>). A step either ends the parse or goes on with the new
  namespace, the new extras and the number of following strings it has used.
  The namespace maps an attribute to its value; \<open>None\<close> is \<^verbatim>\<open>None\<close>, the default of
  every attribute.
\<close>

type_synonym namespace = "string \<rightharpoonup> string"

datatype parse_outcome = Usage_error | Help_exit | Parsed namespace "string list"

datatype step = Stop parse_outcome | Continue namespace "string list" nat

fun next_is_argument :: "(string \<times> arg_class) list \<Rightarrow> bool" where
  "next_is_argument ((s, Arg) # rest) = True"
| "next_is_argument _ = False"

fun short_flags :: "option_table \<Rightarrow> bool \<Rightarrow> string \<Rightarrow> (string \<times> arg_class) list \<Rightarrow> parse_outcome" where
  "short_flags table sep [] rest = Usage_error"
| "short_flags table sep (c # e) rest =
     (if sep \<or> c = DASH then Usage_error
      else (case map_of table [DASH, c] of
              None \<Rightarrow> Help_exit
            | Some (Store dest req) \<Rightarrow>
                if e = [] \<and> \<not> next_is_argument rest then Usage_error else Help_exit
            | Some Help \<Rightarrow>
                (case e of
                   [] \<Rightarrow> Help_exit
                 | d # e' \<Rightarrow> if d = EQUALS then short_flags table True e' rest
                             else short_flags table False (d # e') rest)))"

definition consume_optional ::
  "option_table \<Rightarrow> namespace \<Rightarrow> string list \<Rightarrow> string \<Rightarrow> option_tuple \<Rightarrow>
   (string \<times> arg_class) list \<Rightarrow> step" where
  "consume_optional table ns extras arg_string t rest =
     (case t of
        Option_tuple None option_string sep explicit_arg \<Rightarrow> Continue ns (extras @ [arg_string]) 0
      | Option_tuple (Some (Store dest req)) option_string sep (Some e) \<Rightarrow>
          Continue (ns(dest \<mapsto> e)) extras 0
      | Option_tuple (Some (Store dest req)) option_string sep None \<Rightarrow>
          if next_is_argument rest then Continue (ns(dest \<mapsto> fst (hd rest))) extras 1
          else Stop Usage_error
      | Option_tuple (Some Help) option_string sep None \<Rightarrow> Stop Help_exit
      | Option_tuple (Some Help) option_string sep (Some e) \<Rightarrow>
          if option_string ! 1 \<noteq> DASH \<and> e \<noteq> []
          then Stop (short_flags table (sep \<noteq> None \<and> sep \<noteq> Some []) e rest)
          else Stop Usage_error)"

definition required_missing :: "option_table \<Rightarrow> namespace \<Rightarrow> bool" where
  "required_missing table ns \<longleftrightarrow>
     (\<exists>(s, a) \<in> set table. case a of Store dest req \<Rightarrow> req \<and> ns dest = None | Help \<Rightarrow> False)"

fun consume ::
  "option_table \<Rightarrow> namespace \<Rightarrow> string list \<Rightarrow> (string \<times> arg_class) list \<Rightarrow> parse_outcome" where
  "consume table ns extras [] =
     (if required_missing table ns then Usage_error else Parsed ns extras)"
| "consume table ns extras ((s, Arg) # rest) = consume table ns (extras @ [s]) rest"
| "consume table ns extras ((s, Dash) # rest) = consume table ns (extras @ [s]) rest"
| "consume table ns extras ((s, Opt t) # rest) =
     (case consume_optional table ns extras s t rest of
        Stop r \<Rightarrow> r
      | Continue ns' extras' n \<Rightarrow> consume table ns' extras' (drop n rest))"

text \<open>
  \<^verbatim>\<open>parse_known_args\<close> of a parser without positional arguments (the sub-command's),
  and \<^verbatim>\<open>parse_args\<close> of the main parser, whose only positional argument is the
  sub-command: the first argument string must name a sub-parser, which then parses all
  strings that follow, and arguments left over anywhere are an error. The main parser
  has no storing option, so its own namespace is empty when the sub-command is reached.
\<close>

definition parse_known_args :: "option_table \<Rightarrow> string list \<Rightarrow> parse_outcome" where
  "parse_known_args table arg_strings =
     (case classify table arg_strings of
        None \<Rightarrow> Usage_error
      | Some toks \<Rightarrow> consume table Map.empty [] toks)"

fun consume_top ::
  "parser \<Rightarrow> string list \<Rightarrow> (string \<times> arg_class) list \<Rightarrow> parse_outcome" where
  "consume_top p extras [] = Parsed Map.empty extras"
| "consume_top p extras ((s, Arg) # rest) =
     (case map_of (subparsers p) s of
        None \<Rightarrow> Usage_error
      | Some table \<Rightarrow>
          (case parse_known_args table (map fst rest) of
             Parsed ns extras' \<Rightarrow> Parsed (ns(''command'' \<mapsto> s)) (extras @ extras')
           | r \<Rightarrow> r))"
| "consume_top p extras ((s, Dash) # rest) = Usage_error"
| "consume_top p extras ((s, Opt t) # rest) =
     (case consume_optional (option_string_actions p) Map.empty extras s t rest of
        Stop r \<Rightarrow> r
      | Continue ns' extras' n \<Rightarrow> consume_top p extras' (drop n rest))"

definition parse_args :: "parser \<Rightarrow> string list \<Rightarrow> parse_outcome" where
  "parse_args p argv =
     (case classify (option_string_actions p) argv of
        None \<Rightarrow> Usage_error
      | Some toks \<Rightarrow>
          (case consume_top p [] toks of
             Parsed ns extras \<Rightarrow> if extras \<noteq> [] then Usage_error else Parsed ns []
           | r \<Rightarrow> r))"

subsection \<open>Entry point\<close>

text \<open>
  What a run of the program leaves behind: what it printed to the two streams, its
  exit status and the file system. A printed object is recorded as such:
  \<open>Repr_inventory\<close> is the output of \<^verbatim>\<open>print(inventory_data)\<close>,
  \<open>Traceback\<close> the report of an exception nothing caught (exit status 1),
  \<open>Usage_message\<close> the usage and error lines of \<^verbatim>\<open>parser.error\<close> (exit status
  2), \<open>Help_message\<close> the text of \<^verbatim>\<open>print_help\<close>.

  The block under \<^verbatim>\<open>if __name__ == "__main__"\<close>, for the argument strings after the
  program name: the inventory is read first, then the arguments are parsed.
\<close>

datatype message =
  Traceback error | Usage_message | Help_message | Repr_inventory "device list" | Line string

record result =
  stdout :: "message list"
  stderr :: "message list"
  exit_code :: nat
  file_system :: files

abbreviation APOSTROPHE :: char where "APOSTROPHE \<equiv> CHR 0x27"

definition format_name :: "string option \<Rightarrow> string" where
  "format_name v = (case v of None \<Rightarrow> ''None'' | Some s \<Rightarrow> s)"

definition main :: "string list \<Rightarrow> files \<Rightarrow> result" where
  "main argv fs =
     (case read_inventory ''inventory.csv'' fs of
        Inl e \<Rightarrow> \<lparr>stdout = [], stderr = [Traceback e], exit_code = 1, file_system = fs\<rparr>
      | Inr inventory_data \<Rightarrow>
          (case parse_args setup_cli argv of
             Usage_error \<Rightarrow>
               \<lparr>stdout = [], stderr = [Usage_message], exit_code = 2, file_system = fs\<rparr>
           | Help_exit \<Rightarrow>
               \<lparr>stdout = [Help_message], stderr = [], exit_code = 0, file_system = fs\<rparr>
           | Parsed args extras \<Rightarrow>
               if args ''command'' = None then
                 \<lparr>stdout = [Repr_inventory inventory_data], stderr = [], exit_code = 0,
                  file_system = fs\<rparr>
               else if args ''command'' = Some ''add'' then
                 (let new_device = dict [(''Name'', args ''name''),
                                         (''Management IP'', args ''ip''),
                                         (''Username'', args ''user''),
                                         (''Password'', args ''password''),
                                         (''Description'', args ''desc'')];
                      h = add_device ((\<lambda>_. [])(0 := inventory_data)) 0 new_device
                  in (case save_inventory ''inventory.csv'' (h 0) fs of
                        (Inl e, fs') \<Rightarrow>
                          \<lparr>stdout = [], stderr = [Traceback e], exit_code = 1, file_system = fs'\<rparr>
                      | (Inr u, fs') \<Rightarrow>
                          \<lparr>stdout = [Line (''Device '' @ [APOSTROPHE] @ format_name (args ''name'') @
                                           [APOSTROPHE] @ '' added and saved!'')],
                           stderr = [], exit_code = 0, file_system = fs'\<rparr>))
               else \<lparr>stdout = [], stderr = [], exit_code = 0, file_system = fs\<rparr>))"

section \<open>Vocabulary of the properties\<close>

text \<open>
  The header line as the file holds it, the five cells the persister writes for a
  record (the empty string where the record has no such key), and the two shapes of a
  record's key set the claims distinguish.
\<close>

definition header_row :: string where
  "header_row = ''Name,Management IP,Username,Password,Description'' @ [CR, LF]"

definition columns :: "device \<Rightarrow> string option list" where
  "columns d = map (\<lambda>key. get_default d key (Some [])) fieldnames"

definition no_extra_keys :: "device \<Rightarrow> bool" where
  "no_extra_keys d \<longleftrightarrow> keys d \<subseteq> Some ` set fieldnames"

definition five_keys :: "device \<Rightarrow> bool" where
  "five_keys d \<longleftrightarrow> keys d = Some ` set fieldnames"

text \<open>
  The reader seen character by character. Iterating over the lines of a text that is
  empty or ends with LF and feeding each line, then \<open>EOL\<close>, to the machine is the
  same as feeding the characters of the text and \<open>EOL\<close> after every LF
  (lemma \<open>read_records_scan\<close>); the proofs about what the loader reads use this form.
\<close>

definition prepend_record ::
  "string list \<Rightarrow> error + string list list \<Rightarrow> error + string list list" where
  "prepend_record rec rest = (case rest of Inl e \<Rightarrow> Inl e | Inr recs \<Rightarrow> Inr (rec # recs))"

fun scan :: "reader \<Rightarrow> string \<Rightarrow> error + string list list" where
  "scan r [] =
     (if field r \<noteq> [] \<or> state r = IN_QUOTED_FIELD then Inr [rec_fields (parse_save_field r)]
      else Inr [])"
| "scan r (c # cs) =
     (case parse_process_char r (Char c) of
        Inl e \<Rightarrow> Inl e
      | Inr r1 \<Rightarrow>
          if c = LF then
            (case parse_process_char r1 EOL of
               Inl e \<Rightarrow> Inl e
             | Inr r2 \<Rightarrow>
                 if state r2 = START_RECORD then prepend_record (rec_fields r2) (scan parse_reset cs)
                 else scan r2 cs)
          else scan r1 cs)"

text \<open>
  The text a cell stands for (\<^verbatim>\<open>None\<close> is written as the empty field), and a
  record's line as the reader receives it: the fields joined by commas, closed by LF.
\<close>

definition cell_text :: "string option \<Rightarrow> string" where
  "cell_text v = (case v of None \<Rightarrow> [] | Some s \<Rightarrow> s)"

definition row_text :: "string option list \<Rightarrow> string" where
  "row_text cells = join_fields (map csv_field cells) @ [LF]"

text \<open>
  A cell the reader gets back as written: free of CR, which universal newlines turn
  into LF, and within the reader's field size limit.
\<close>

definition writable_text :: "string option \<Rightarrow> bool" where
  "writable_text v \<longleftrightarrow> CR \<notin> set (cell_text v) \<and> length (cell_text v) \<le> field_limit"

text \<open>
  The dict the loader builds from the row the persister wrote for a record: the five
  keys in column order, each bound to the text of its cell.
\<close>

definition loaded_form :: "device \<Rightarrow> device" where
  "loaded_form d = dict (map (\<lambda>key. (key, Some (cell_text (get_default d key (Some []))))) fieldnames)"



text \<open>
  The table of the sub-command \<^verbatim>\<open>add\<close>; an argument string that names the option
  storing to \<open>dest\<close> in any spelling the parser accepts, and one that names the help
  option; the three results of a run that ends before the sub-command is carried out.
\<close>

definition add_parser :: option_table where
  "add_parser = the (map_of (subparsers setup_cli) ''add'')"

definition supplies :: "string \<Rightarrow> string \<Rightarrow> bool" where
  "supplies dest tok =
     (case parse_optional add_parser tok of
        Optional (Option_tuple (Some (Store d req)) s sep e) \<Rightarrow> d = dest
      | _ \<Rightarrow> False)"

definition asks_help :: "string \<Rightarrow> bool" where
  "asks_help tok =
     (case parse_optional add_parser tok of
        Optional (Option_tuple (Some Help) s sep e) \<Rightarrow> True
      | _ \<Rightarrow> False)"

definition aborted :: "error \<Rightarrow> files \<Rightarrow> result" where
  "aborted e fs = \<lparr>stdout = [], stderr = [Traceback e], exit_code = 1, file_system = fs\<rparr>"

definition usage_failure :: "files \<Rightarrow> result" where
  "usage_failure fs = \<lparr>stdout = [], stderr = [Usage_message], exit_code = 2, file_system = fs\<rparr>"

definition help_shown :: "files \<Rightarrow> result" where
  "help_shown fs = \<lparr>stdout = [Help_message], stderr = [], exit_code = 0, file_system = fs\<rparr>"

text \<open>A parse that ends the program; an option tuple that stores to \<open>dest\<close>, or asks for help.\<close>

definition stops_early :: "parse_outcome \<Rightarrow> bool" where
  "stops_early r \<longleftrightarrow> r = Usage_error \<or> r = Help_exit"

definition stores :: "string \<Rightarrow> option_tuple \<Rightarrow> bool" where
  "stores dest t = (case t of Option_tuple (Some (Store d req)) s sep e \<Rightarrow> d = dest | _ \<Rightarrow> False)"

definition helps :: "option_tuple \<Rightarrow> bool" where
  "helps t = (case t of Option_tuple (Some Help) s sep e \<Rightarrow> True | _ \<Rightarrow> False)"

text \<open>
  Two dicts with the same bindings, inserted in possibly different orders (the keys of a
  dict are distinct).
\<close>

definition reordered :: "device \<Rightarrow> device \<Rightarrow> bool" where
  "reordered d d' \<longleftrightarrow>
     distinct (map fst (items d)) \<and> distinct (map fst (items d')) \<and>
     set (items d') = set (items d) \<and> surplus d' = surplus d"

text \<open>The two tests on a record that the claims about the finder speak about: it has a
  Name key; its Name is the target.\<close>

definition has_name :: "device \<Rightarrow> bool" where
  "has_name d \<longleftrightarrow> map_of (items d) ''Name'' \<noteq> None"

definition name_is :: "string \<Rightarrow> device \<Rightarrow> bool" where
  "name_is target d \<longleftrightarrow> map_of (items d) ''Name'' = Some (Some target)"

text \<open>
  The finder's contract in the words of the specification: for every inventory and
  every target the result is the first record, in sequence order, whose Name equals the
  target, and \<^verbatim>\<open>None\<close> when there is none.
\<close>

definition finder_contract :: "device list \<Rightarrow> string \<Rightarrow> bool" where
  "finder_contract inventory target \<longleftrightarrow>
     get_device_data inventory target = Inr (find (name_is target) inventory)"

section \<open>Properties of the finder\<close>

lemma get_device_data_skip:
  "has_name d \<Longrightarrow> \<not> name_is target d \<Longrightarrow>
   get_device_data (d # ds) target = get_device_data ds target"
  by (auto simp: has_name_def name_is_def getitem_def)

lemma get_device_data_hit:
  "name_is target d \<Longrightarrow> get_device_data (d # ds) target = Inr (Some d)"
  by (simp add: name_is_def getitem_def)

lemma get_device_data_raise:
  "\<not> has_name d \<Longrightarrow> get_device_data (d # ds) target = Inl KeyError"
  by (simp add: has_name_def getitem_def)

text \<open>
  C3, as stated, fails: a record without a Name key that precedes the match makes the
  finder raise \<^verbatim>\<open>KeyError\<close> although a later record has the wanted name.
\<close>

theorem finder_contract_counterexample:
  "\<not> finder_contract [dict [(''Description'', Some ''spare'')],
                       dict [(''Name'', Some ''R1'')]] ''R1''
   \<and> get_device_data [dict [(''Description'', Some ''spare'')],
                       dict [(''Name'', Some ''R1'')]] ''R1'' = Inl KeyError"
  by (simp add: finder_contract_def name_is_def getitem_def)

text \<open>
  C3, amended. When every record that the search passes before it stops (the records
  in front of the first match, or all records when nothing matches) has a Name key, the
  finder returns the first record in sequence order whose Name equals the target,
  compared as strings without any normalisation, and \<^verbatim>\<open>None\<close> when no record
  matches. With duplicated names the earliest record is returned.
\<close>

theorem get_device_data_first_match:
  assumes "\<forall>d \<in> set (takeWhile (\<lambda>d. \<not> name_is target d) inventory). has_name d"
  shows "get_device_data inventory target = Inr (find (name_is target) inventory)"
  using assms
proof (induction inventory)
  case Nil
  show ?case by simp
next
  case (Cons d ds)
  show ?case
  proof (cases "name_is target d")
    case True
    then show ?thesis by (simp only: get_device_data_hit find.simps if_True)
  next
    case False
    with Cons.prems have named: "has_name d"
      and rest: "\<forall>e \<in> set (takeWhile (\<lambda>d. \<not> name_is target d) ds). has_name e"
      by simp_all
    have "get_device_data (d # ds) target = get_device_data ds target"
      using named False by (rule get_device_data_skip)
    also have "\<dots> = Inr (find (name_is target) ds)"
      using rest by (rule Cons.IH)
    finally show ?thesis using False by simp
  qed
qed

theorem get_device_data_first_match_witness:
  "get_device_data
     [dict [(''Name'', Some ''R1''), (''Username'', Some ''a'')],
      dict [(''Name'', Some ''r1'')],
      dict [(''Name'', Some ''R2''), (''Username'', Some ''first'')],
      dict [(''Name'', Some ''R2''), (''Username'', Some ''second'')],
      dict [(''Description'', Some ''no name'')]] ''R2''
   = Inr (Some (dict [(''Name'', Some ''R2''), (''Username'', Some ''first'')]))
   \<and> get_device_data [dict [(''Name'', Some ''R1'')], dict [(''Name'', None)]] ''R1 ''
   = Inr None"
  using get_device_data_first_match [of "''R2''"
      "[dict [(''Name'', Some ''R1''), (''Username'', Some ''a'')],
        dict [(''Name'', Some ''r1'')],
        dict [(''Name'', Some ''R2''), (''Username'', Some ''first'')],
        dict [(''Name'', Some ''R2''), (''Username'', Some ''second'')],
        dict [(''Description'', Some ''no name'')]]"]
    get_device_data_first_match [of "''R1 ''"
      "[dict [(''Name'', Some ''R1'')], dict [(''Name'', None)]]"]
  by (simp add: name_is_def has_name_def)

text \<open>
  C9. Let a record without a Name key stand in the inventory, and let no record in
  front of it have the target as its Name. Then the finder does not return
  \<^verbatim>\<open>None\<close> (nor any record): it raises \<^verbatim>\<open>KeyError\<close>.
\<close>

theorem get_device_data_KeyError:
  assumes "inventory = pre @ d # post"
    and "\<forall>e \<in> set pre. \<not> name_is target e"
    and "\<not> has_name d"
  shows "get_device_data inventory target = Inl KeyError"
proof -
  have "get_device_data (pre @ d # post) target = Inl KeyError"
    using assms(2)
  proof (induction pre)
    case Nil
    show ?case unfolding append_Nil using assms(3) by (rule get_device_data_raise)
  next
    case (Cons e es)
    then have no: "\<not> name_is target e"
      and IH: "get_device_data (es @ d # post) target = Inl KeyError"
      by simp_all
    show ?case
    proof (cases "has_name e")
      case True
      then have "get_device_data (e # es @ d # post) target
          = get_device_data (es @ d # post) target"
        using no by (rule get_device_data_skip)
      with IH show ?thesis by (simp only: append_Cons)
    next
      case False
      then have "get_device_data (e # es @ d # post) target = Inl KeyError"
        by (rule get_device_data_raise)
      then show ?thesis by (simp only: append_Cons)
    qed
  qed
  with assms(1) show ?thesis by simp
qed

theorem get_device_data_KeyError_witness:
  "get_device_data
     [dict [(''Name'', Some ''R1'')], dict [(''Username'', Some ''admin'')],
      dict [(''Name'', Some ''R2'')]] ''R2'' = Inl KeyError
   \<and> get_device_data
     [dict [(''Name'', Some ''R1'')], dict [(''Username'', Some ''admin'')]] ''R9''
     \<noteq> Inr None"
  using get_device_data_KeyError [of
      "[dict [(''Name'', Some ''R1'')], dict [(''Username'', Some ''admin'')],
        dict [(''Name'', Some ''R2'')]]"
      "[dict [(''Name'', Some ''R1'')]]" "dict [(''Username'', Some ''admin'')]"
      "[dict [(''Name'', Some ''R2'')]]" "''R2''"]
    get_device_data_KeyError [of
      "[dict [(''Name'', Some ''R1'')], dict [(''Username'', Some ''admin'')]]"
      "[dict [(''Name'', Some ''R1'')]]" "dict [(''Username'', Some ''admin'')]"
      "[]" "''R9''"]
  by (simp add: name_is_def has_name_def)

section \<open>Properties of the mutator\<close>

text \<open>
  C4. After \<^verbatim>\<open>add_device(inventory, new_device)\<close> the caller's list (the list at
  the address it passed) is the old list followed by the new record: the old records
  are unchanged and in their order, the new one is last, and no other list of the store
  is touched. Nothing is compared with the Name of the new record, so the call cannot
  fail, also when the name is already present.
\<close>

theorem add_device_appends:
  "add_device h inventory new_device inventory = h inventory @ [new_device]
   \<and> take (length (h inventory)) (add_device h inventory new_device inventory) = h inventory
   \<and> last (add_device h inventory new_device inventory) = new_device
   \<and> length (add_device h inventory new_device inventory) = Suc (length (h inventory))
   \<and> (\<forall>other. other \<noteq> inventory \<longrightarrow> add_device h inventory new_device other = h other)"
  by (simp add: add_device_def)

theorem add_device_appends_witness:
  "add_device (\<lambda>_. [dict [(''Name'', Some ''R1''), (''Password'', Some ''x'')]]) 0
     (dict [(''Name'', Some ''R1''), (''Password'', Some ''y'')]) 0
   = [dict [(''Name'', Some ''R1''), (''Password'', Some ''x'')],
      dict [(''Name'', Some ''R1''), (''Password'', Some ''y'')]]
   \<and> add_device (\<lambda>_. [dict [(''Name'', Some ''R1''), (''Password'', Some ''x'')]]) 0
     (dict [(''Name'', Some ''R1''), (''Password'', Some ''y'')]) 1
   = [dict [(''Name'', Some ''R1''), (''Password'', Some ''x'')]]"
  using add_device_appends [of "\<lambda>_. [dict [(''Name'', Some ''R1''), (''Password'', Some ''x'')]]"
      0 "dict [(''Name'', Some ''R1''), (''Password'', Some ''y'')]"]
  by simp

section \<open>Properties of the persister\<close>

lemma writeheader_eq: "writeheader out = (Inr (), out @ header_row)"
  by (simp add: writeheader_def writerow_def dict_to_list_def keys_def fieldnames_def
      get_default_def csv_record_def csv_field_def needs_quotes_def lineterminator_def
      header_row_def)

lemma dict_to_list_no_extra: "no_extra_keys d \<Longrightarrow> dict_to_list d = Inr (columns d)"
  by (auto simp: no_extra_keys_def dict_to_list_def columns_def)

lemma dict_to_list_extra: "\<not> no_extra_keys d \<Longrightarrow> dict_to_list d = Inl ValueError"
  by (auto simp: no_extra_keys_def dict_to_list_def)

lemma writerows_no_extra:
  "\<forall>d \<in> set inventory. no_extra_keys d \<Longrightarrow>
   writerows inventory out = (Inr (), out @ concat (map (\<lambda>d. csv_record (columns d)) inventory))"
  by (induction inventory arbitrary: out) (simp_all add: writerow_def dict_to_list_no_extra)

lemma writerows_extra:
  "\<exists>d \<in> set inventory. \<not> no_extra_keys d \<Longrightarrow>
   writerows inventory out =
     (Inl ValueError,
      out @ concat (map (\<lambda>d. csv_record (columns d)) (takeWhile no_extra_keys inventory)))"
proof (induction inventory arbitrary: out)
  case Nil
  then show ?case by simp
next
  case (Cons d ds)
  show ?case
  proof (cases "no_extra_keys d")
    case True
    with Cons.prems have "\<exists>d \<in> set ds. \<not> no_extra_keys d" by simp
    from Cons.IH [OF this] True show ?thesis
      by (simp add: writerow_def dict_to_list_no_extra)
  next
    case False
    then show ?thesis by (simp add: writerow_def dict_to_list_extra)
  qed
qed

lemma five_keys_columns:
  assumes "five_keys d"
  shows "columns d = map (\<lambda>key. the (map_of (items d) key)) fieldnames"
proof -
  have "map_of (items d) key \<noteq> None" if "key \<in> set fieldnames" for key
  proof -
    from that assms have "Some key \<in> keys d" by (simp add: five_keys_def)
    then have "key \<in> fst ` set (items d)"
      by (auto simp: keys_def split: option.splits)
    then show ?thesis by (simp add: map_of_eq_None_iff)
  qed
  then show ?thesis by (fastforce simp: columns_def get_default_def)
qed

lemma same_bindings_keys:
  "map_of (items d) = map_of (items d') \<Longrightarrow> surplus d = surplus d' \<Longrightarrow> keys d = keys d'"
proof -
  assume a: "map_of (items d) = map_of (items d')" and b: "surplus d = surplus d'"
  have "fst ` set (items d) = dom (map_of (items d))" by (simp add: dom_map_of_conv_image_fst)
  also have "\<dots> = fst ` set (items d')" using a by (simp add: dom_map_of_conv_image_fst)
  finally show ?thesis using b by (simp add: keys_def)
qed

lemma same_bindings_dict_to_list:
  "map_of (items d) = map_of (items d') \<Longrightarrow> surplus d = surplus d' \<Longrightarrow>
   dict_to_list d' = dict_to_list d"
  using same_bindings_keys [of d d'] by (simp add: dict_to_list_def get_default_def)

lemma reordered_dict_to_list: "reordered d d' \<Longrightarrow> dict_to_list d' = dict_to_list d"
proof -
  assume r: "reordered d d'"
  then have "map_of (items d) = map_of (items d')"
    by (simp add: reordered_def map_of_inject_set)
  moreover from r have "surplus d = surplus d'" by (simp add: reordered_def)
  ultimately show ?thesis by (rule same_bindings_dict_to_list)
qed

lemma reordered_writerows:
  "list_all2 reordered inventory inventory' \<Longrightarrow>
   writerows inventory' out = writerows inventory out"
proof (induction inventory inventory' arbitrary: out rule: list_all2_induct)
  case Nil
  show ?case by simp
next
  case (Cons d ds d' ds')
  from Cons.hyps(1) have "dict_to_list d' = dict_to_list d"
    by (rule reordered_dict_to_list)
  then have "writerow d' out = writerow d out" by (simp add: writerow_def)
  with Cons.IH show ?case by (simp split: prod.splits sum.splits)
qed

text \<open>
  C1, as stated, fails. A record without the Password key is written without any
  error: \<^verbatim>\<open>rowdict.get(key, self.restval)\<close> puts the empty string into the column
  of a missing key. Only keys outside the field names make the writer raise.
\<close>

theorem save_inventory_missing_key_counterexample:
  "(\<exists>key \<in> set fieldnames.
      Some key \<notin> keys (dict [(''Name'', Some ''R1''), (''Management IP'', Some ''10.0.0.1''),
                               (''Username'', Some ''admin''), (''Description'', Some ''Core router'')]))
   \<and> save_inventory ''inventory.csv''
       [dict [(''Name'', Some ''R1''), (''Management IP'', Some ''10.0.0.1''),
              (''Username'', Some ''admin''), (''Description'', Some ''Core router'')]] Map.empty
     = (Inr (), [''inventory.csv'' \<mapsto>
          ''Name,Management IP,Username,Password,Description'' @ [CR, LF] @
          ''R1,10.0.0.1,admin,,Core router'' @ [CR, LF]])"
  by (simp add: save_inventory_def writeheader_eq header_row_def writerow_def dict_to_list_def
      keys_def fieldnames_def get_default_def csv_record_def csv_field_def needs_quotes_def
      lineterminator_def)

text \<open>
  C1, amended. For every record sequence in which no record has a key outside the five
  field names, records that lack some of the five keys included, the persister raises
  nothing: it writes the header and one row per record, in sequence order, and the
  column of every key a record lacks holds the empty string, the other columns staying
  in their places.
\<close>

theorem save_inventory_missing_keys:
  assumes "\<forall>d \<in> set inventory. no_extra_keys d"
  shows "save_inventory filename inventory fs =
           (Inr (), fs(filename \<mapsto> header_row @ concat (map (\<lambda>d. csv_record (columns d)) inventory)))
         \<and> (\<forall>d \<in> set inventory. \<forall>i < length fieldnames.
               Some (fieldnames ! i) \<notin> keys d \<longrightarrow> columns d ! i = Some [])"
proof
  show "save_inventory filename inventory fs =
      (Inr (), fs(filename \<mapsto> header_row @ concat (map (\<lambda>d. csv_record (columns d)) inventory)))"
    using assms by (simp add: save_inventory_def writeheader_eq writerows_no_extra)
next
  show "\<forall>d \<in> set inventory. \<forall>i < length fieldnames.
      Some (fieldnames ! i) \<notin> keys d \<longrightarrow> columns d ! i = Some []"
  proof (intro ballI allI impI)
    fix d i
    assume "i < length fieldnames" and "Some (fieldnames ! i) \<notin> keys d"
    then have "fieldnames ! i \<notin> fst ` set (items d)" by (auto simp: keys_def)
    then have "map_of (items d) (fieldnames ! i) = None" by (simp add: map_of_eq_None_iff)
    with \<open>i < length fieldnames\<close> show "columns d ! i = Some []"
      by (simp add: columns_def get_default_def)
  qed
qed

theorem save_inventory_missing_keys_witness:
  "save_inventory ''inventory.csv''
     [dict [(''Name'', Some ''R1''), (''Username'', Some ''admin'')], dict []] Map.empty
   = (Inr (), [''inventory.csv'' \<mapsto>
        ''Name,Management IP,Username,Password,Description'' @ [CR, LF] @
        ''R1,,admin,,'' @ [CR, LF] @ '',,,,'' @ [CR, LF]])
   \<and> columns (dict [(''Name'', Some ''R1''), (''Username'', Some ''admin'')]) ! 3 = Some []"
  using save_inventory_missing_keys [of
     "[dict [(''Name'', Some ''R1''), (''Username'', Some ''admin'')], dict []]"
     "''inventory.csv''" Map.empty]
  by (simp add: no_extra_keys_def keys_def fieldnames_def header_row_def csv_record_def
      csv_field_def needs_quotes_def lineterminator_def columns_def get_default_def)

text \<open>
  C2. When some record of the sequence has a key outside the five field names, the
  persister raises \<^verbatim>\<open>ValueError\<close>, the writer's field-mapping error. It is raised
  while the rows are written: the file then holds the header and the rows of the
  records in front of the first such record.
\<close>

theorem save_inventory_extra_key:
  assumes "d \<in> set inventory" and "key \<in> keys d" and "key \<notin> Some ` set fieldnames"
  shows "save_inventory filename inventory fs =
           (Inl ValueError,
            fs(filename \<mapsto> header_row @
               concat (map (\<lambda>d. csv_record (columns d)) (takeWhile no_extra_keys inventory))))"
proof -
  from assms have "\<exists>d \<in> set inventory. \<not> no_extra_keys d"
    by (auto simp: no_extra_keys_def)
  then show ?thesis by (simp add: save_inventory_def writeheader_eq writerows_extra)
qed

theorem save_inventory_extra_key_witness:
  "save_inventory ''inventory.csv''
     [dict [(''Name'', Some ''R1'')],
      dict [(''Name'', Some ''R2''), (''Location'', Some ''Lab'')],
      dict [(''Name'', Some ''R3'')]] [''inventory.csv'' \<mapsto> ''old text'']
   = (Inl ValueError, [''inventory.csv'' \<mapsto>
        ''Name,Management IP,Username,Password,Description'' @ [CR, LF] @
        ''R1,,,,'' @ [CR, LF]])"
  using save_inventory_extra_key [of
     "dict [(''Name'', Some ''R2''), (''Location'', Some ''Lab'')]"
     "[dict [(''Name'', Some ''R1'')],
      dict [(''Name'', Some ''R2''), (''Location'', Some ''Lab'')],
      dict [(''Name'', Some ''R3'')]]" "Some ''Location''" "''inventory.csv''"
     "[''inventory.csv'' \<mapsto> ''old text'']"]
  by (simp add: no_extra_keys_def keys_def fieldnames_def header_row_def csv_record_def
      csv_field_def needs_quotes_def lineterminator_def columns_def get_default_def)

text \<open>
  C5. When every record has exactly the five keys, the persister replaces whatever the
  file held by the header row, in the fixed order Name, Management IP, Username,
  Password, Description, followed by one row per record in sequence order, each row
  holding the record's five values in that same column order. The order in which the
  keys were inserted into a record has no influence on the file.
\<close>

theorem save_inventory_five_keys:
  assumes "\<forall>d \<in> set inventory. five_keys d"
  shows "save_inventory filename inventory fs =
           (Inr (), fs(filename \<mapsto> header_row @
              concat (map (\<lambda>d. csv_record (map (\<lambda>key. the (map_of (items d) key)) fieldnames))
                          inventory)))
         \<and> (\<forall>inventory'. list_all2 reordered inventory inventory' \<longrightarrow>
               save_inventory filename inventory' fs = save_inventory filename inventory fs)"
proof
  from assms have no_extra: "\<forall>d \<in> set inventory. no_extra_keys d"
    by (simp add: five_keys_def no_extra_keys_def)
  have rows: "map (\<lambda>d. csv_record (columns d)) inventory
      = map (\<lambda>d. csv_record (map (\<lambda>key. the (map_of (items d) key)) fieldnames)) inventory"
    using assms by (simp add: five_keys_columns)
  have "save_inventory filename inventory fs =
      (Inr (), fs(filename \<mapsto> header_row @ concat (map (\<lambda>d. csv_record (columns d)) inventory)))"
    using no_extra by (simp add: save_inventory_def writeheader_eq writerows_no_extra)
  then show "save_inventory filename inventory fs =
      (Inr (), fs(filename \<mapsto> header_row @
         concat (map (\<lambda>d. csv_record (map (\<lambda>key. the (map_of (items d) key)) fieldnames))
                     inventory)))"
    unfolding rows .
next
  show "\<forall>inventory'. list_all2 reordered inventory inventory' \<longrightarrow>
      save_inventory filename inventory' fs = save_inventory filename inventory fs"
  proof (intro allI impI)
    fix inventory'
    assume "list_all2 reordered inventory inventory'"
    then have "writerows inventory' header_row = writerows inventory header_row"
      by (rule reordered_writerows)
    then show "save_inventory filename inventory' fs = save_inventory filename inventory fs"
      unfolding save_inventory_def writeheader_eq by (simp only: prod.case sum.case append_Nil)
  qed
qed

theorem save_inventory_five_keys_witness:
  "save_inventory ''inventory.csv''
     [dict [(''Name'', Some ''Router1''), (''Management IP'', Some ''10.0.0.1''),
            (''Username'', Some ''admin''), (''Password'', Some ''pass123''),
            (''Description'', Some ''Core router'')],
      dict [(''Description'', Some ''Access, floor 2''), (''Password'', None),
            (''Username'', Some ''admin''), (''Management IP'', Some ''10.0.0.2''),
            (''Name'', Some ''Switch1'')]]
     [''inventory.csv'' \<mapsto> ''old text'']
   = (Inr (), [''inventory.csv'' \<mapsto>
        ''Name,Management IP,Username,Password,Description'' @ [CR, LF] @
        ''Router1,10.0.0.1,admin,pass123,Core router'' @ [CR, LF] @
        ''Switch1,10.0.0.2,admin,,'' @ [QUOTE] @ ''Access, floor 2'' @ [QUOTE, CR, LF]])"
proof -
  have five: "\<forall>d \<in> set
     [dict [(''Name'', Some ''Router1''), (''Management IP'', Some ''10.0.0.1''),
            (''Username'', Some ''admin''), (''Password'', Some ''pass123''),
            (''Description'', Some ''Core router'')],
      dict [(''Description'', Some ''Access, floor 2''), (''Password'', None),
            (''Username'', Some ''admin''), (''Management IP'', Some ''10.0.0.2''),
            (''Name'', Some ''Switch1'')]]. five_keys d"
    by (auto simp: five_keys_def keys_def fieldnames_def)
  from save_inventory_five_keys [OF five, of "''inventory.csv''"
      "[''inventory.csv'' \<mapsto> ''old text'']"]
  show ?thesis
    by (simp add: fieldnames_def header_row_def csv_record_def csv_field_def needs_quotes_def
        lineterminator_def)
qed

section \<open>Persister, then loader\<close>

lemma read_header_only:
  "read_records parse_reset (split_lines (universal_newlines header_row)) = Inr [fieldnames]"
  by (simp add: header_row_def parse_reset_def parse_process_char_def start_field_def
      is_newline_def parse_add_char_def parse_save_field_def field_limit_def fieldnames_def)

text \<open>
  C10. For the empty record sequence the persister still replaces the file: it then
  holds the header row Name,Management IP,Username,Password,Description and nothing
  else. The loader, run on that file, returns the empty sequence and raises nothing.
\<close>

theorem save_inventory_empty:
  "save_inventory filename [] fs =
     (Inr (), fs(filename \<mapsto> ''Name,Management IP,Username,Password,Description'' @ [CR, LF]))
   \<and> read_inventory filename (snd (save_inventory filename [] fs)) = Inr []"
proof -
  have saved: "save_inventory filename [] fs = (Inr (), fs(filename \<mapsto> header_row))"
    by (simp add: save_inventory_def writeheader_eq)
  have "read_inventory filename (fs(filename \<mapsto> header_row)) = Inr []"
    by (simp add: read_inventory_def read_header_only dict_reader_def)
  with saved show ?thesis by (simp add: header_row_def)
qed

theorem save_inventory_empty_witness:
  "save_inventory ''inventory.csv'' [] [''inventory.csv'' \<mapsto> ''Name'' @ [LF] @ ''R1'' @ [LF]] =
     (Inr (), [''inventory.csv'' \<mapsto>
        ''Name,Management IP,Username,Password,Description'' @ [CR, LF]])
   \<and> read_inventory ''inventory.csv''
        (snd (save_inventory ''inventory.csv'' []
               [''inventory.csv'' \<mapsto> ''Name'' @ [LF] @ ''R1'' @ [LF]])) = Inr []"
  using save_inventory_empty [of "''inventory.csv''"
      "[''inventory.csv'' \<mapsto> ''Name'' @ [LF] @ ''R1'' @ [LF]]"]
  unfolding fun_upd_upd .

subsection \<open>What the reader makes of what the writer wrote\<close>

lemma prepend_record_simps [simp]:
  "prepend_record rec (Inl e) = Inl e"
  "prepend_record rec (Inr recs) = Inr (rec # recs)"
  by (simp_all add: prepend_record_def)

lemma split_lines_nonempty: "t \<noteq> [] \<Longrightarrow> split_lines t \<noteq> []"
  by (cases t) (auto split: list.splits)

lemma read_records_char:
  "read_records r ((c # l) # ls) =
     (case parse_process_char r (Char c) of Inl e \<Rightarrow> Inl e | Inr r1 \<Rightarrow> read_records r1 (l # ls))"
  by (simp split: sum.splits)

lemma read_records_scan:
  "t = [] \<or> last t = LF \<Longrightarrow> read_records r (split_lines t) = scan r t"
proof (induction t arbitrary: r)
  case Nil
  show ?case by simp
next
  case (Cons c cs)
  show ?case
  proof (cases "c = LF")
    case True
    have tail: "cs = [] \<or> last cs = LF" using Cons.prems by (auto split: if_splits)
    have "split_lines (c # cs) = [LF] # split_lines cs" using True by simp
    then show ?thesis
      using True Cons.IH [OF tail]
      by (simp add: prepend_record_def split: sum.splits)
  next
    case False
    with Cons.prems have ne: "cs \<noteq> []" and tail: "cs = [] \<or> last cs = LF"
      by (auto split: if_splits)
    from ne obtain l ls where sl: "split_lines cs = l # ls"
      using split_lines_nonempty [of cs] by (cases "split_lines cs") auto
    have "split_lines (c # cs) = (c # l) # ls" using False sl by simp
    then have "read_records r (split_lines (c # cs)) =
        (case parse_process_char r (Char c) of Inl e \<Rightarrow> Inl e
         | Inr r1 \<Rightarrow> read_records r1 (split_lines cs))"
      by (simp only: read_records_char sl)
    also have "\<dots> = scan r (c # cs)"
      using False Cons.IH [OF tail]
      by (simp split: sum.splits)
    finally show ?thesis .
  qed
qed

lemmas machine_defs = parse_process_char_def start_field_def is_newline_def
  parse_add_char_def parse_save_field_def

lemma scan_plain:
  "\<forall>c \<in> set s. c \<noteq> COMMA \<and> c \<noteq> QUOTE \<and> c \<noteq> CR \<and> c \<noteq> LF \<Longrightarrow>
   length f + length s \<le> field_limit \<Longrightarrow>
   scan \<lparr>state = IN_FIELD, rec_fields = fs, field = f\<rparr> (s @ rest)
     = scan \<lparr>state = IN_FIELD, rec_fields = fs, field = f @ s\<rparr> rest"
proof (induction s arbitrary: f)
  case Nil
  show ?case by simp
next
  case (Cons c s)
  from Cons.prems have c: "c \<noteq> COMMA" "c \<noteq> QUOTE" "c \<noteq> CR" "c \<noteq> LF"
    and s: "\<forall>c \<in> set s. c \<noteq> COMMA \<and> c \<noteq> QUOTE \<and> c \<noteq> CR \<and> c \<noteq> LF"
    and len: "length f < field_limit" "length (f @ [c]) + length s \<le> field_limit"
    by simp_all
  have "scan \<lparr>state = IN_FIELD, rec_fields = fs, field = f\<rparr> ((c # s) @ rest)
      = scan \<lparr>state = IN_FIELD, rec_fields = fs, field = f @ [c]\<rparr> (s @ rest)"
    using c len(1) by (simp add: machine_defs)
  also have "\<dots> = scan \<lparr>state = IN_FIELD, rec_fields = fs, field = (f @ [c]) @ s\<rparr> rest"
    using s len(2) by (rule Cons.IH)
  finally show ?case by simp
qed

lemma scan_quoted:
  "length f + length s \<le> field_limit \<Longrightarrow>
   scan \<lparr>state = IN_QUOTED_FIELD, rec_fields = fs, field = f\<rparr> (double_quotes s @ rest)
     = scan \<lparr>state = IN_QUOTED_FIELD, rec_fields = fs, field = f @ s\<rparr> rest"
proof (induction s arbitrary: f)
  case Nil
  show ?case by simp
next
  case (Cons c s)
  from Cons.prems have len: "length f < field_limit" "length (f @ [c]) + length s \<le> field_limit"
    by simp_all
  have "scan \<lparr>state = IN_QUOTED_FIELD, rec_fields = fs, field = f\<rparr> (double_quotes (c # s) @ rest)
      = scan \<lparr>state = IN_QUOTED_FIELD, rec_fields = fs, field = f @ [c]\<rparr> (double_quotes s @ rest)"
    using len(1) by (simp add: machine_defs)
  also have "\<dots> = scan \<lparr>state = IN_QUOTED_FIELD, rec_fields = fs, field = (f @ [c]) @ s\<rparr> rest"
    using len(2) by (rule Cons.IH)
  finally show ?case by simp
qed

lemma plain_chars:
  "\<not> needs_quotes s \<Longrightarrow> \<forall>c \<in> set s. c \<noteq> COMMA \<and> c \<noteq> QUOTE \<and> c \<noteq> CR \<and> c \<noteq> LF"
  by (auto simp: needs_quotes_def lineterminator_def)

lemma scan_field_comma:
  assumes "length (cell_text v) \<le> field_limit"
  shows "scan \<lparr>state = START_FIELD, rec_fields = fs, field = []\<rparr> (csv_field v @ COMMA # rest)
     = scan \<lparr>state = START_FIELD, rec_fields = fs @ [cell_text v], field = []\<rparr> rest"
proof (cases v)
  case None
  then show ?thesis by (simp add: csv_field_def cell_text_def machine_defs)
next
  case (Some s)
  with assms have len: "length s \<le> field_limit" by (simp add: cell_text_def)
  show ?thesis
  proof (cases "needs_quotes s")
    case True
    have "scan \<lparr>state = START_FIELD, rec_fields = fs, field = []\<rparr>
            (QUOTE # double_quotes s @ QUOTE # COMMA # rest)
        = scan \<lparr>state = IN_QUOTED_FIELD, rec_fields = fs, field = []\<rparr>
            (double_quotes s @ QUOTE # COMMA # rest)"
      by (simp add: machine_defs)
    also have "\<dots> = scan \<lparr>state = IN_QUOTED_FIELD, rec_fields = fs, field = [] @ s\<rparr>
            (QUOTE # COMMA # rest)"
      using len by (intro scan_quoted) simp
    also have "\<dots> = scan \<lparr>state = START_FIELD, rec_fields = fs @ [s], field = []\<rparr> rest"
      by (simp add: machine_defs)
    finally show ?thesis using True Some by (simp add: csv_field_def cell_text_def)
  next
    case False
    note plain = plain_chars [OF False]
    show ?thesis
    proof (cases s)
      case Nil
      with False Some show ?thesis by (simp add: csv_field_def cell_text_def machine_defs)
    next
      case (Cons c s')
      with plain have c: "c \<noteq> COMMA" "c \<noteq> QUOTE" "c \<noteq> CR" "c \<noteq> LF"
        and s': "\<forall>c \<in> set s'. c \<noteq> COMMA \<and> c \<noteq> QUOTE \<and> c \<noteq> CR \<and> c \<noteq> LF"
        by simp_all
      from len Cons have l: "length [c] + length s' \<le> field_limit" by simp
      have pos: "0 < field_limit" by (simp add: field_limit_def)
      have "scan \<lparr>state = START_FIELD, rec_fields = fs, field = []\<rparr> (c # s' @ COMMA # rest)
          = scan \<lparr>state = IN_FIELD, rec_fields = fs, field = [c]\<rparr> (s' @ COMMA # rest)"
        using c pos by (simp add: machine_defs)
      also have "\<dots> = scan \<lparr>state = IN_FIELD, rec_fields = fs, field = [c] @ s'\<rparr> (COMMA # rest)"
        using s' l by (rule scan_plain)
      also have "\<dots> = scan \<lparr>state = START_FIELD, rec_fields = fs @ [s], field = []\<rparr> rest"
        using Cons by (simp add: machine_defs)
      finally show ?thesis using False Some Cons by (simp add: csv_field_def cell_text_def)
    qed
  qed
qed

lemma scan_field_newline:
  assumes "length (cell_text v) \<le> field_limit"
  shows "scan \<lparr>state = START_FIELD, rec_fields = fs, field = []\<rparr> (csv_field v @ LF # rest)
     = prepend_record ((fs @ [cell_text v])) (scan parse_reset rest)"
proof (cases v)
  case None
  then show ?thesis by (simp add: csv_field_def cell_text_def machine_defs)
next
  case (Some s)
  with assms have len: "length s \<le> field_limit" by (simp add: cell_text_def)
  show ?thesis
  proof (cases "needs_quotes s")
    case True
    have "scan \<lparr>state = START_FIELD, rec_fields = fs, field = []\<rparr>
            (QUOTE # double_quotes s @ QUOTE # LF # rest)
        = scan \<lparr>state = IN_QUOTED_FIELD, rec_fields = fs, field = []\<rparr>
            (double_quotes s @ QUOTE # LF # rest)"
      by (simp add: machine_defs)
    also have "\<dots> = scan \<lparr>state = IN_QUOTED_FIELD, rec_fields = fs, field = [] @ s\<rparr>
            (QUOTE # LF # rest)"
      using len by (intro scan_quoted) simp
    also have "\<dots> = prepend_record ((fs @ [s])) (scan parse_reset rest)"
      by (simp add: machine_defs)
    finally show ?thesis using True Some by (simp add: csv_field_def cell_text_def)
  next
    case False
    note plain = plain_chars [OF False]
    show ?thesis
    proof (cases s)
      case Nil
      with False Some show ?thesis
        by (simp add: csv_field_def cell_text_def machine_defs)
    next
      case (Cons c s')
      with plain have c: "c \<noteq> COMMA" "c \<noteq> QUOTE" "c \<noteq> CR" "c \<noteq> LF"
        and s': "\<forall>c \<in> set s'. c \<noteq> COMMA \<and> c \<noteq> QUOTE \<and> c \<noteq> CR \<and> c \<noteq> LF"
        by simp_all
      from len Cons have l: "length [c] + length s' \<le> field_limit" by simp
      have pos: "0 < field_limit" by (simp add: field_limit_def)
      have "scan \<lparr>state = START_FIELD, rec_fields = fs, field = []\<rparr> (c # s' @ LF # rest)
          = scan \<lparr>state = IN_FIELD, rec_fields = fs, field = [c]\<rparr> (s' @ LF # rest)"
        using c pos by (simp add: machine_defs)
      also have "\<dots> = scan \<lparr>state = IN_FIELD, rec_fields = fs, field = [c] @ s'\<rparr> (LF # rest)"
        using s' l by (rule scan_plain)
      also have "\<dots> = prepend_record ((fs @ [s])) (scan parse_reset rest)"
        using Cons by (simp add: machine_defs)
      finally show ?thesis using False Some Cons by (simp add: csv_field_def cell_text_def)
    qed
  qed
qed


lemma scan_start_record:
  "c \<noteq> LF \<Longrightarrow> c \<noteq> CR \<Longrightarrow>
   scan \<lparr>state = START_RECORD, rec_fields = fs, field = f\<rparr> (c # cs)
     = scan \<lparr>state = START_FIELD, rec_fields = fs, field = f\<rparr> (c # cs)"
  by (simp add: parse_process_char_def is_newline_def)

lemma csv_field_hd: "csv_field v = c # cs \<Longrightarrow> c \<noteq> LF \<and> c \<noteq> CR"
  by (cases v) (auto simp: csv_field_def needs_quotes_def lineterminator_def split: if_splits)

lemma scan_fields:
  "cells \<noteq> [] \<Longrightarrow> \<forall>v \<in> set cells. length (cell_text v) \<le> field_limit \<Longrightarrow>
   scan \<lparr>state = START_FIELD, rec_fields = fs, field = []\<rparr>
        (join_fields (map csv_field cells) @ LF # rest)
     = prepend_record ((fs @ map cell_text cells)) (scan parse_reset rest)"
proof (induction cells arbitrary: fs)
  case Nil
  then show ?case by simp
next
  case (Cons v cells)
  from Cons.prems have len: "length (cell_text v) \<le> field_limit"
    and lens: "\<forall>v \<in> set cells. length (cell_text v) \<le> field_limit"
    by simp_all
  show ?case
  proof (cases cells)
    case Nil
    with scan_field_newline [OF len, of fs rest] show ?thesis by (simp)
  next
    case (Cons w more)
    then have ne: "cells \<noteq> []" by simp
    have "scan \<lparr>state = START_FIELD, rec_fields = fs, field = []\<rparr>
            (join_fields (map csv_field (v # cells)) @ LF # rest)
        = scan \<lparr>state = START_FIELD, rec_fields = fs, field = []\<rparr>
            (csv_field v @ COMMA # join_fields (map csv_field cells) @ LF # rest)"
      using Cons by simp
    also have "\<dots> = scan \<lparr>state = START_FIELD, rec_fields = fs @ [cell_text v], field = []\<rparr>
            (join_fields (map csv_field cells) @ LF # rest)"
      using len by (rule scan_field_comma)
    also have "\<dots> = prepend_record (((fs @ [cell_text v]) @ map cell_text cells)) (scan parse_reset rest)"
      using ne lens by (rule Cons.IH)
    finally show ?thesis by simp
  qed
qed

lemma scan_row:
  assumes "2 \<le> length cells" and "\<forall>v \<in> set cells. length (cell_text v) \<le> field_limit"
  shows "scan parse_reset (row_text cells @ rest)
     = prepend_record (map cell_text cells) (scan parse_reset rest)"
proof -
  from assms(1) obtain v w more where cells: "cells = v # w # more"
    by (cases cells; cases "tl cells") auto
  let ?t = "join_fields (map csv_field cells) @ LF # rest"
  have "\<exists>c cs. ?t = c # cs \<and> c \<noteq> LF \<and> c \<noteq> CR"
  proof (cases "csv_field v")
    case Nil
    then show ?thesis using cells by simp
  next
    case (Cons c cs)
    with csv_field_hd [OF Cons] show ?thesis using cells by simp
  qed
  then obtain c cs where t: "?t = c # cs" and c: "c \<noteq> LF" "c \<noteq> CR" by blast
  have "scan parse_reset ?t = scan \<lparr>state = START_FIELD, rec_fields = [], field = []\<rparr> ?t"
    unfolding t parse_reset_def using c by (rule scan_start_record)
  also have "\<dots> = prepend_record (([] @ map cell_text cells)) (scan parse_reset rest)"
    using cells assms(2) by (intro scan_fields) simp_all
  finally show ?thesis by (simp add: row_text_def)
qed

lemma scan_rows:
  "\<forall>cells \<in> set rows. 2 \<le> length cells \<and> (\<forall>v \<in> set cells. length (cell_text v) \<le> field_limit) \<Longrightarrow>
   scan parse_reset (concat (map row_text rows)) = Inr (map (map cell_text) rows)"
proof (induction rows)
  case Nil
  show ?case by (simp add: parse_reset_def)
next
  case (Cons cells rows)
  then have "scan parse_reset (row_text cells @ concat (map row_text rows))
      = prepend_record (map cell_text cells) (scan parse_reset (concat (map row_text rows)))"
    by (intro scan_row) simp_all
  with Cons show ?case by simp
qed

lemma universal_newlines_plain:
  "CR \<notin> set a \<Longrightarrow> universal_newlines (a @ b) = a @ universal_newlines b"
  by (induction a) auto

lemma set_double_quotes: "set (double_quotes s) = set s"
  by (induction s) auto

lemma csv_field_no_CR: "CR \<notin> set (cell_text v) \<Longrightarrow> CR \<notin> set (csv_field v)"
  by (cases v) (auto simp: csv_field_def cell_text_def set_double_quotes)

lemma join_fields_no_CR: "\<forall>f \<in> set fs. CR \<notin> set f \<Longrightarrow> CR \<notin> set (join_fields fs)"
  by (induction fs rule: join_fields.induct) auto

lemma join_fields_nonempty: "2 \<le> length fs \<Longrightarrow> join_fields fs \<noteq> []"
  by (cases fs rule: join_fields.cases) auto

lemma universal_newlines_record:
  assumes "2 \<le> length cells" and "\<forall>v \<in> set cells. CR \<notin> set (cell_text v)"
  shows "universal_newlines (csv_record cells @ rest) = row_text cells @ universal_newlines rest"
proof -
  let ?body = "join_fields (map csv_field cells)"
  from assms(1) have "?body \<noteq> []" by (intro join_fields_nonempty) simp
  then have rec: "csv_record cells = ?body @ [CR, LF]"
    by (simp add: csv_record_def lineterminator_def Let_def)
  from assms(2) have "CR \<notin> set ?body"
    by (intro join_fields_no_CR) (auto simp: csv_field_no_CR)
  then have "universal_newlines (?body @ (CR # LF # rest)) = ?body @ universal_newlines (CR # LF # rest)"
    by (rule universal_newlines_plain)
  then show ?thesis by (simp add: rec row_text_def)
qed

lemma universal_newlines_records:
  "\<forall>cells \<in> set rows. 2 \<le> length cells \<and> (\<forall>v \<in> set cells. CR \<notin> set (cell_text v)) \<Longrightarrow>
   universal_newlines (concat (map csv_record rows)) = concat (map row_text rows)"
proof (induction rows)
  case Nil
  show ?case by simp
next
  case (Cons cells rows)
  then have "universal_newlines (csv_record cells @ concat (map csv_record rows))
      = row_text cells @ universal_newlines (concat (map csv_record rows))"
    by (intro universal_newlines_record) simp_all
  with Cons show ?case by simp
qed

lemma last_rows: "concat (map row_text rows) = [] \<or> last (concat (map row_text rows)) = LF"
proof (induction rows rule: rev_induct)
  case Nil
  show ?case by simp
next
  case (snoc cells rows)
  show ?case by (simp add: row_text_def)
qed

lemma read_written_rows:
  assumes "\<forall>cells \<in> set rows. 2 \<le> length cells \<and> (\<forall>v \<in> set cells. writable_text v)"
  shows "read_records parse_reset (split_lines (universal_newlines (concat (map csv_record rows))))
     = Inr (map (map cell_text) rows)"
proof -
  from assms have "universal_newlines (concat (map csv_record rows)) = concat (map row_text rows)"
    by (intro universal_newlines_records) (auto simp: writable_text_def)
  moreover have "read_records parse_reset (split_lines (concat (map row_text rows)))
      = scan parse_reset (concat (map row_text rows))"
    using last_rows by (rule read_records_scan)
  moreover from assms have "scan parse_reset (concat (map row_text rows)) = Inr (map (map cell_text) rows)"
    by (intro scan_rows) (auto simp: writable_text_def)
  ultimately show ?thesis by simp
qed

lemma header_row_record: "header_row = csv_record (map Some fieldnames)"
  by (simp add: header_row_def csv_record_def csv_field_def needs_quotes_def lineterminator_def
      fieldnames_def)

lemma row_dict_columns: "row_dict fieldnames (map cell_text (columns d)) = loaded_form d"
  by (simp add: row_dict_def columns_def loaded_form_def fieldnames_def)

lemma save_then_read:
  assumes "\<forall>d \<in> set inventory. no_extra_keys d \<and> (\<forall>v \<in> set (columns d). writable_text v)"
  shows "read_inventory filename (snd (save_inventory filename inventory fs))
     = Inr (map loaded_form inventory)"
proof -
  let ?rows = "map Some fieldnames # map columns inventory"
  from assms have saved: "snd (save_inventory filename inventory fs)
      = fs(filename \<mapsto> concat (map csv_record ?rows))"
    by (simp add: save_inventory_def writeheader_eq writerows_no_extra header_row_record comp_def)
  have "\<forall>cells \<in> set ?rows. 2 \<le> length cells \<and> (\<forall>v \<in> set cells. writable_text v)"
  proof
    fix cells assume "cells \<in> set ?rows"
    then consider "cells = map Some fieldnames" | d where "d \<in> set inventory" "cells = columns d"
      by auto
    then show "2 \<le> length cells \<and> (\<forall>v \<in> set cells. writable_text v)"
    proof cases
      case 1
      then show ?thesis
        by (simp add: fieldnames_def writable_text_def cell_text_def field_limit_def)
    next
      case 2
      with assms show ?thesis by (simp add: columns_def fieldnames_def)
    qed
  qed
  then have "read_records parse_reset (split_lines (universal_newlines (concat (map csv_record ?rows))))
      = Inr (map (map cell_text) ?rows)"
    by (rule read_written_rows)
  moreover have "dict_reader (map (map cell_text) ?rows) = map loaded_form inventory"
  proof -
    have header: "map cell_text (map Some fieldnames) = fieldnames"
      by (simp add: cell_text_def comp_def)
    have nonempty: "filter (\<lambda>row. row \<noteq> []) (map (\<lambda>d. map cell_text (columns d)) inventory)
        = map (\<lambda>d. map cell_text (columns d)) inventory"
      by (induction inventory) (simp_all add: columns_def fieldnames_def)
    have "dict_reader (map (map cell_text) ?rows)
        = map (row_dict fieldnames) (map (\<lambda>d. map cell_text (columns d)) inventory)"
      unfolding dict_reader_def list.map header by (simp add: comp_def nonempty)
    also have "\<dots> = map loaded_form inventory"
      by (simp add: comp_def row_dict_columns)
    finally show ?thesis .
  qed
  ultimately show ?thesis by (simp add: read_inventory_def saved)
qed



text \<open>
  The writer and the reader are not inverse on every record. A value \<^verbatim>\<open>None\<close>, which
  the loader produces for a row shorter than the header, is written as the empty field
  and read back as the empty string. A field longer than the reader's field size limit
  is written, but reading it raises \<^verbatim>\<open>csv.Error\<close>.
\<close>

lemma none_value_read_as_empty:
  "read_inventory ''inventory.csv''
     [''inventory.csv'' \<mapsto> ''Name,Management IP,Username,Password,Description'' @ [LF] @ ''R1'' @ [LF]]
   = Inr [dict [(''Name'', Some ''R1''), (''Management IP'', None), (''Username'', None),
                (''Password'', None), (''Description'', None)]]
   \<and> read_inventory ''inventory.csv''
       (snd (save_inventory ''inventory.csv''
          [dict [(''Name'', Some ''R1''), (''Management IP'', None), (''Username'', None),
                 (''Password'', None), (''Description'', None)]] fs))
   = Inr [dict [(''Name'', Some ''R1''), (''Management IP'', Some []), (''Username'', Some []),
                (''Password'', Some []), (''Description'', Some [])]]"
proof
  show "read_inventory ''inventory.csv''
     [''inventory.csv'' \<mapsto> ''Name,Management IP,Username,Password,Description'' @ [LF] @ ''R1'' @ [LF]]
   = Inr [dict [(''Name'', Some ''R1''), (''Management IP'', None), (''Username'', None),
                (''Password'', None), (''Description'', None)]]"
    by (simp add: read_inventory_def parse_reset_def machine_defs field_limit_def
        dict_reader_def row_dict_def)
next
  let ?d = "dict [(''Name'', Some ''R1''), (''Management IP'', None), (''Username'', None),
                 (''Password'', None), (''Description'', None)]"
  have "\<forall>d \<in> set [?d]. no_extra_keys d \<and> (\<forall>v \<in> set (columns d). writable_text v)"
    by (simp add: no_extra_keys_def keys_def columns_def fieldnames_def get_default_def
        writable_text_def cell_text_def field_limit_def)
  then have "read_inventory ''inventory.csv'' (snd (save_inventory ''inventory.csv'' [?d] fs))
      = Inr (map loaded_form [?d])"
    by (rule save_then_read)
  then show "read_inventory ''inventory.csv'' (snd (save_inventory ''inventory.csv'' [?d] fs))
   = Inr [dict [(''Name'', Some ''R1''), (''Management IP'', Some []), (''Username'', Some []),
                (''Password'', Some []), (''Description'', Some [])]]"
    by (simp add: loaded_form_def fieldnames_def get_default_def cell_text_def)
qed

lemma scan_field_too_long:
  assumes "length f = field_limit" and "c \<noteq> COMMA" "c \<noteq> QUOTE" "c \<noteq> CR" "c \<noteq> LF"
  shows "scan \<lparr>state = IN_FIELD, rec_fields = fs, field = f\<rparr> (c # rest) = Inl CsvError"
  using assms by (simp add: machine_defs)

lemma oversized_field_not_read:
  fixes x :: char
  assumes x: "x \<noteq> COMMA" "x \<noteq> QUOTE" "x \<noteq> CR" "x \<noteq> LF"
  shows "read_inventory filename
     (snd (save_inventory filename
        [dict [(''Name'', Some (replicate (Suc field_limit) x)), (''Management IP'', Some []),
               (''Username'', Some []), (''Password'', Some []), (''Description'', Some [])]] fs))
   = Inl CsvError"
proof -
  let ?long = "replicate (Suc field_limit) x"
  let ?d = "dict [(''Name'', Some ?long), (''Management IP'', Some []),
               (''Username'', Some []), (''Password'', Some []), (''Description'', Some [])]"
  let ?cells = "[Some ?long, Some [], Some [], Some [], Some []]"
  have cols: "columns ?d = ?cells"
    by (simp add: columns_def fieldnames_def get_default_def)
  have "no_extra_keys ?d" by (simp add: no_extra_keys_def keys_def fieldnames_def)
  then have "writerows [?d] header_row
      = (Inr (), header_row @ concat (map (\<lambda>d. csv_record (columns d)) [?d]))"
    by (intro writerows_no_extra) simp
  then have saved: "snd (save_inventory filename [?d] fs)
      = fs(filename \<mapsto> concat (map csv_record [map Some fieldnames, ?cells]))"
    by (simp add: save_inventory_def writeheader_eq cols header_row_record
        del: writerows.simps replicate.simps)
  let ?text = "row_text (map Some fieldnames) @ row_text ?cells"
  have "universal_newlines (concat (map csv_record [map Some fieldnames, ?cells]))
      = concat (map row_text [map Some fieldnames, ?cells])"
    using x by (intro universal_newlines_records)
      (simp add: fieldnames_def cell_text_def del: replicate.simps)
  then have translated:
    "universal_newlines (concat (map csv_record [map Some fieldnames, ?cells])) = ?text"
    by (simp del: replicate.simps)
  have "?text = [] \<or> last ?text = LF" by (simp add: row_text_def)
  then have lines: "read_records parse_reset (split_lines ?text) = scan parse_reset ?text"
    by (rule read_records_scan)
  have "scan parse_reset (row_text (map Some fieldnames) @ row_text ?cells)
      = prepend_record (map cell_text (map Some fieldnames)) (scan parse_reset (row_text ?cells))"
    by (intro scan_row) (simp_all add: fieldnames_def cell_text_def field_limit_def)
  moreover have "scan parse_reset (row_text ?cells) = Inl CsvError"
  proof -
    have plain: "\<not> needs_quotes ?long"
      using x by (auto simp: needs_quotes_def lineterminator_def)
    have pos: "0 < field_limit" by (simp add: field_limit_def)
    then have long: "?long = x # replicate (field_limit - 1) x @ [x]"
      by (metis Suc_pred' replicate_Suc replicate_append_same append_Cons)
    have row: "row_text ?cells = x # replicate (field_limit - 1) x @ x # '',,,,'' @ [LF]"
    proof -
      have empty: "\<not> needs_quotes []" by (simp add: needs_quotes_def)
      have "csv_field (Some ?long) = ?long" using plain by (simp add: csv_field_def)
      moreover have "csv_field (Some []) = []" using empty by (simp add: csv_field_def)
      ultimately have "row_text ?cells = ?long @ '',,,,'' @ [LF]"
        by (simp add: row_text_def del: replicate.simps)
      then show ?thesis by (simp only: long append_Cons append_assoc append_Nil)
    qed
    have "scan parse_reset (x # replicate (field_limit - 1) x @ x # '',,,,'' @ [LF])
        = scan \<lparr>state = IN_FIELD, rec_fields = [], field = [x]\<rparr>
            (replicate (field_limit - 1) x @ x # '',,,,'' @ [LF])"
      using x pos by (simp add: parse_reset_def machine_defs del: replicate.simps)
    also have "\<dots> = scan \<lparr>state = IN_FIELD, rec_fields = [], field = [x] @ replicate (field_limit - 1) x\<rparr>
            (x # '',,,,'' @ [LF])"
      using x pos by (intro scan_plain) auto
    also have "\<dots> = Inl CsvError"
      using x pos by (intro scan_field_too_long) auto
    finally show ?thesis by (simp only: row)
  qed
  ultimately have "scan parse_reset ?text = Inl CsvError" by simp
  with lines translated saved show ?thesis by (simp add: read_inventory_def del: replicate.simps)
qed




section \<open>Properties of the entry point\<close>

text \<open>
  The run of the specification's example: the file holds the row of Router1, the
  command line adds Switch1. Afterwards the file holds both rows, Router1 first, in the
  fixed column order, and the confirmation is printed.
\<close>

lemma main_add_example:
  "main [''add'', ''--name'', ''Switch1'', ''--ip'', ''10.0.0.2'', ''--user'', ''admin'',
         ''--password'', ''pass456'', ''--desc'', ''Access switch'']
        [''inventory.csv'' \<mapsto>
           ''Name,Management IP,Username,Password,Description'' @ [LF] @
           ''Router1,10.0.0.1,admin,pass123,Core router'' @ [LF]]
   = \<lparr>stdout = [Line (''Device '' @ [APOSTROPHE] @ ''Switch1'' @ [APOSTROPHE] @ '' added and saved!'')],
      stderr = [], exit_code = 0,
      file_system = [''inventory.csv'' \<mapsto>
           ''Name,Management IP,Username,Password,Description'' @ [CR, LF] @
           ''Router1,10.0.0.1,admin,pass123,Core router'' @ [CR, LF] @
           ''Switch1,10.0.0.2,admin,pass456,Access switch'' @ [CR, LF]]\<rparr>"
proof -
  let ?fs = "[''inventory.csv'' \<mapsto>
           ''Name,Management IP,Username,Password,Description'' @ [LF] @
           ''Router1,10.0.0.1,admin,pass123,Core router'' @ [LF]]"
  let ?old = "dict [(''Name'', Some ''Router1''), (''Management IP'', Some ''10.0.0.1''),
                (''Username'', Some ''admin''), (''Password'', Some ''pass123''),
                (''Description'', Some ''Core router'')]"
  let ?new = "dict [(''Name'', Some ''Switch1''), (''Management IP'', Some ''10.0.0.2''),
                (''Username'', Some ''admin''), (''Password'', Some ''pass456''),
                (''Description'', Some ''Access switch'')]"
  have loaded: "read_inventory ''inventory.csv'' ?fs = Inr [?old]"
    by (simp add: read_inventory_def parse_reset_def machine_defs field_limit_def
        dict_reader_def row_dict_def)
  have parsed: "parse_args setup_cli
       [''add'', ''--name'', ''Switch1'', ''--ip'', ''10.0.0.2'', ''--user'', ''admin'',
        ''--password'', ''pass456'', ''--desc'', ''Access switch'']
     = Parsed [''name'' \<mapsto> ''Switch1'', ''ip'' \<mapsto> ''10.0.0.2'', ''user'' \<mapsto> ''admin'',
               ''password'' \<mapsto> ''pass456'', ''desc'' \<mapsto> ''Access switch'',
               ''command'' \<mapsto> ''add''] []"
    by (simp add: parse_args_def setup_cli_def parse_optional_def parse_known_args_def
        consume_optional_def required_missing_def partition_eq_def get_option_tuples_def
        startswith_def negative_number_def is_digit_def)
  have saved: "save_inventory ''inventory.csv'' [?old, ?new] ?fs
     = (Inr (), [''inventory.csv'' \<mapsto>
           ''Name,Management IP,Username,Password,Description'' @ [CR, LF] @
           ''Router1,10.0.0.1,admin,pass123,Core router'' @ [CR, LF] @
           ''Switch1,10.0.0.2,admin,pass456,Access switch'' @ [CR, LF]])"
    by (simp add: save_inventory_def writeheader_eq header_row_def writerow_def dict_to_list_def
        keys_def fieldnames_def get_default_def csv_record_def csv_field_def needs_quotes_def
        lineterminator_def)
  note facts = loaded [simplified] parsed [simplified] saved [simplified]
  show ?thesis
    by (simp add: main_def add_device_def format_name_def facts)
qed

text \<open>A parse with a required option missing ends the program in the parser.\<close>

lemma short_flags_stops: "stops_early (short_flags table sep e rest)"
  by (induction table sep e rest rule: short_flags.induct)
     (auto simp: stops_early_def split: option.splits action.splits list.splits)

lemma consume_optional_stop:
  "consume_optional table ns extras s t rest = Stop r \<Longrightarrow> stops_early r"
  using short_flags_stops
  by (auto simp: consume_optional_def stops_early_def
      split: option_tuple.splits option.splits action.splits if_splits)

lemma consume_optional_stop_help:
  "consume_optional table ns extras s t rest = Stop Help_exit \<Longrightarrow> helps t"
  by (auto simp: consume_optional_def helps_def
      split: option_tuple.splits option.splits action.splits if_splits)

lemma consume_optional_continue:
  "consume_optional table ns extras s t rest = Continue ns' extras' n \<Longrightarrow>
   \<not> stores dest t \<Longrightarrow> ns' dest = ns dest"
  by (auto simp: consume_optional_def stores_def
      split: option_tuple.splits option.splits action.splits if_splits)

lemma consume_missing:
  shows "(ostr, Store dest True) \<in> set table \<Longrightarrow> ns dest = None \<Longrightarrow>
         \<forall>(s, c) \<in> set toks. \<forall>t. c = Opt t \<longrightarrow> \<not> stores dest t \<Longrightarrow>
         stops_early (consume table ns extras toks)
         \<and> (consume table ns extras toks = Help_exit \<longrightarrow>
              (\<exists>(s, c) \<in> set toks. \<exists>t. c = Opt t \<and> helps t))"
proof (induction table ns extras toks rule: consume.induct)
  case (1 table ns extras)
  from 1 have "required_missing table ns"
    by (auto simp: required_missing_def intro!: bexI [of _ "(ostr, Store dest True)"])
  then show ?case by (simp add: stops_early_def)
next
  case (2 table ns extras s rest)
  then show ?case by simp
next
  case (3 table ns extras s rest)
  then show ?case by simp
next
  case (4 table ns extras s t rest)
  from "4.prems" have tab: "(ostr, Store dest True) \<in> set table" and none: "ns dest = None"
    by simp_all
  from "4.prems" have t: "\<not> stores dest t"
    and rest: "\<forall>(s, c) \<in> set rest. \<forall>t. c = Opt t \<longrightarrow> \<not> stores dest t"
    by auto
  show ?case
  proof (cases "consume_optional table ns extras s t rest")
    case (Stop r)
    with consume_optional_stop [OF Stop] consume_optional_stop_help [of table ns extras s t rest]
    show ?thesis by auto
  next
    case (Continue ns' extras' n)
    from consume_optional_continue [OF Continue t] none have "ns' dest = None" by simp
    moreover have "\<forall>(s, c) \<in> set (drop n rest). \<forall>t. c = Opt t \<longrightarrow> \<not> stores dest t"
      using rest by (auto dest: in_set_dropD)
    ultimately have IH: "stops_early (consume table ns' extras' (drop n rest))
         \<and> (consume table ns' extras' (drop n rest) = Help_exit \<longrightarrow>
              (\<exists>(s, c) \<in> set (drop n rest). \<exists>t. c = Opt t \<and> helps t))"
      using "4.IH" [OF Continue tab] by blast
    then show ?thesis using Continue by (auto dest: in_set_dropD)
  qed
qed

lemma classify_tokens:
  "classify table args = Some toks \<Longrightarrow>
   map fst toks = args \<and> (\<forall>(s, c) \<in> set toks. \<forall>t. c = Opt t \<longrightarrow> parse_optional table s = Optional t)"
proof (induction args arbitrary: toks)
  case Nil
  then show ?case by simp
next
  case (Cons a args)
  show ?case
  proof (cases "a = ''--''")
    case True
    with Cons.prems show ?thesis by (auto simp: comp_def)
  next
    case False
    with Cons.prems Cons.IH show ?thesis
      by (fastforce split: parsed_optional.splits)
  qed
qed

lemma add_parser_table:
  "add_parser = [(''-h'', Help), (''--help'', Help),
       (''--name'', Store ''name'' True), (''--ip'', Store ''ip'' True),
       (''--user'', Store ''user'' True), (''--password'', Store ''password'' True),
       (''--desc'', Store ''desc'' True)]"
  by (simp add: add_parser_def setup_cli_def)

lemma parse_known_args_missing:
  assumes "(ostr, Store dest True) \<in> set add_parser"
    and "\<forall>tok \<in> set rest. \<not> supplies dest tok"
  shows "stops_early (parse_known_args add_parser rest)
       \<and> (parse_known_args add_parser rest = Help_exit \<longrightarrow> (\<exists>tok \<in> set rest. asks_help tok))"
proof (cases "classify add_parser rest")
  case None
  then show ?thesis by (simp add: parse_known_args_def stops_early_def)
next
  case (Some toks)
  from classify_tokens [OF Some] have fst: "map fst toks = rest"
    and opt: "\<forall>(s, c) \<in> set toks. \<forall>t. c = Opt t \<longrightarrow> parse_optional add_parser s = Optional t"
    by simp_all
  have mem: "s \<in> set rest" if "(s, c) \<in> set toks" for s c
    using that fst by force
  have no_store: "\<forall>(s, c) \<in> set toks. \<forall>t. c = Opt t \<longrightarrow> \<not> stores dest t"
  proof (intro ballI, clarify)
    fix s t assume in_toks: "(s, Opt t) \<in> set toks" and st: "stores dest t"
    from opt in_toks have "parse_optional add_parser s = Optional t" by blast
    with st have "supplies dest s"
      by (auto simp: supplies_def stores_def split: option_tuple.splits option.splits action.splits)
    with assms(2) mem [OF in_toks] show False by blast
  qed
  have "Map.empty dest = None" by simp
  from consume_missing [OF assms(1) this no_store, of "[]"]
  have stop: "stops_early (consume add_parser Map.empty [] toks)"
    and hlp: "consume add_parser Map.empty [] toks = Help_exit \<longrightarrow>
      (\<exists>(s, c) \<in> set toks. \<exists>t. c = Opt t \<and> helps t)"
    by simp_all
  have "\<exists>tok \<in> set rest. asks_help tok" if "consume add_parser Map.empty [] toks = Help_exit"
  proof -
    from hlp that obtain s t where in_toks: "(s, Opt t) \<in> set toks" and h: "helps t" by blast
    from opt in_toks have "parse_optional add_parser s = Optional t" by blast
    with h have "asks_help s"
      by (auto simp: asks_help_def helps_def split: option_tuple.splits option.splits action.splits)
    with mem [OF in_toks] show ?thesis by blast
  qed
  with stop show ?thesis by (simp add: parse_known_args_def Some)
qed

lemma parse_args_add:
  "parse_args setup_cli (''add'' # rest) = Usage_error \<or>
   (\<exists>toks. parse_args setup_cli (''add'' # rest) =
      (case parse_known_args add_parser rest of
         Parsed ns extras \<Rightarrow> if extras \<noteq> [] then Usage_error else Parsed (ns(''command'' \<mapsto> ''add'')) []
       | r \<Rightarrow> r))"
proof -
  have pos: "parse_optional (option_string_actions setup_cli) ''add'' = Positional"
    by (simp add: parse_optional_def)
  show ?thesis
  proof (cases "classify (option_string_actions setup_cli) rest")
    case None
    with pos show ?thesis by (simp add: parse_args_def)
  next
    case (Some toks)
    from classify_tokens [OF Some] have "map fst toks = rest" by simp
    moreover have "map_of (subparsers setup_cli) ''add'' = Some add_parser"
      by (simp add: add_parser_def setup_cli_def)
    ultimately show ?thesis using pos Some
      by (auto simp: parse_args_def split: parse_outcome.splits)
  qed
qed

lemma parse_args_add_missing:
  assumes "dest \<in> set [''name'', ''ip'', ''user'', ''password'', ''desc'']"
    and "\<forall>tok \<in> set rest. \<not> supplies dest tok"
  shows "stops_early (parse_args setup_cli (''add'' # rest))
       \<and> (parse_args setup_cli (''add'' # rest) = Help_exit \<longrightarrow> (\<exists>tok \<in> set rest. asks_help tok))"
proof -
  from assms(1) have "(''--'' @ dest, Store dest True) \<in> set add_parser"
    unfolding add_parser_table by auto
  from parse_known_args_missing [OF this assms(2)]
  have sub: "stops_early (parse_known_args add_parser rest)"
    and hlp: "parse_known_args add_parser rest = Help_exit \<longrightarrow> (\<exists>tok \<in> set rest. asks_help tok)"
    by simp_all
  from parse_args_add [of rest] sub hlp show ?thesis
    by (auto simp: stops_early_def)
qed

text \<open>
  C7, as stated, fails twice. With \<^verbatim>\<open>add --help\<close> all five flags are omitted, yet
  the program prints the help text to standard output and exits with status 0. And the
  argument parser is not the first thing to run: the inventory is read before, so
  without a backing file the run ends with the loader's exception, not with a usage
  error.
\<close>

theorem add_missing_flag_counterexample:
  "\<not> (\<exists>tok \<in> set [''--help'']. supplies ''name'' tok)
   \<and> main [''add'', ''--help''] [''inventory.csv'' \<mapsto> ''Name'' @ [LF] @ ''R1'' @ [LF]]
     = \<lparr>stdout = [Help_message], stderr = [], exit_code = 0,
        file_system = [''inventory.csv'' \<mapsto> ''Name'' @ [LF] @ ''R1'' @ [LF]]\<rparr>
   \<and> main [''add''] Map.empty
     = \<lparr>stdout = [], stderr = [Traceback FileNotFoundError], exit_code = 1,
        file_system = Map.empty\<rparr>"
proof (intro conjI)
  show "\<not> (\<exists>tok \<in> set [''--help'']. supplies ''name'' tok)"
    by (simp add: supplies_def parse_optional_def add_parser_table)
  have "read_inventory ''inventory.csv'' [''inventory.csv'' \<mapsto> ''Name'' @ [LF] @ ''R1'' @ [LF]]
      = Inr [dict [(''Name'', Some ''R1'')]]"
    by (simp add: read_inventory_def parse_reset_def machine_defs field_limit_def
        dict_reader_def row_dict_def)
  moreover have "parse_args setup_cli [''add'', ''--help''] = Help_exit"
    by (simp add: parse_args_def setup_cli_def parse_optional_def parse_known_args_def
        consume_optional_def)
  ultimately show "main [''add'', ''--help''] [''inventory.csv'' \<mapsto> ''Name'' @ [LF] @ ''R1'' @ [LF]]
     = \<lparr>stdout = [Help_message], stderr = [], exit_code = 0,
        file_system = [''inventory.csv'' \<mapsto> ''Name'' @ [LF] @ ''R1'' @ [LF]]\<rparr>"
    by (simp add: main_def)
  show "main [''add''] Map.empty
     = \<lparr>stdout = [], stderr = [Traceback FileNotFoundError], exit_code = 1,
        file_system = Map.empty\<rparr>"
    by (simp add: main_def read_inventory_def)
qed

text \<open>
  C7, amended. Let the argument strings after \<^verbatim>\<open>add\<close> name one of the five
  required flags in none of the spellings the parser accepts. Then the backing file is
  not written. The loader runs first; if it raises, the run ends with its exception.
  Otherwise the run ends in the argument parser: with the usage error on standard
  error and exit status 2, or, only when an argument string asks for help, with the help
  text on standard output and exit status 0.
\<close>

theorem add_missing_flag:
  assumes "dest \<in> set [''name'', ''ip'', ''user'', ''password'', ''desc'']"
    and "\<forall>tok \<in> set rest. \<not> supplies dest tok"
  shows "file_system (main (''add'' # rest) fs) = fs
       \<and> (case read_inventory ''inventory.csv'' fs of
            Inl e \<Rightarrow> main (''add'' # rest) fs = aborted e fs
          | Inr inventory_data \<Rightarrow>
              main (''add'' # rest) fs = usage_failure fs
              \<or> main (''add'' # rest) fs = help_shown fs \<and> (\<exists>tok \<in> set rest. asks_help tok))"
proof -
  from parse_args_add_missing [OF assms]
  have "parse_args setup_cli (''add'' # rest) = Usage_error
      \<or> parse_args setup_cli (''add'' # rest) = Help_exit \<and> (\<exists>tok \<in> set rest. asks_help tok)"
    by (auto simp: stops_early_def)
  then show ?thesis
    by (auto simp: main_def aborted_def usage_failure_def help_shown_def split: sum.splits)
qed

theorem add_missing_flag_witness:
  "main [''add'', ''--name'', ''Switch1'', ''--ip'', ''10.0.0.2'', ''--user'', ''admin'',
         ''--desc'', ''Access switch'']
        [''inventory.csv'' \<mapsto> ''Name'' @ [LF] @ ''R1'' @ [LF]]
   = \<lparr>stdout = [], stderr = [Usage_message], exit_code = 2,
      file_system = [''inventory.csv'' \<mapsto> ''Name'' @ [LF] @ ''R1'' @ [LF]]\<rparr>"
proof -
  let ?rest = "[''--name'', ''Switch1'', ''--ip'', ''10.0.0.2'', ''--user'', ''admin'',
         ''--desc'', ''Access switch'']"
  let ?fs = "[''inventory.csv'' \<mapsto> ''Name'' @ [LF] @ ''R1'' @ [LF]]"
  have dest: "''password'' \<in> set [''name'', ''ip'', ''user'', ''password'', ''desc'']" by simp
  have omitted: "\<forall>tok \<in> set ?rest. \<not> supplies ''password'' tok"
    by (simp add: supplies_def parse_optional_def add_parser_table partition_eq_def
        get_option_tuples_def startswith_def negative_number_def is_digit_def)
  have no_help: "\<not> (\<exists>tok \<in> set ?rest. asks_help tok)"
    by (simp add: asks_help_def parse_optional_def add_parser_table partition_eq_def
        get_option_tuples_def startswith_def negative_number_def is_digit_def)
  have loaded: "read_inventory ''inventory.csv'' ?fs = Inr [dict [(''Name'', Some ''R1'')]]"
    by (simp add: read_inventory_def parse_reset_def machine_defs field_limit_def
        dict_reader_def row_dict_def)
  from add_missing_flag [OF dest omitted, of ?fs] no_help loaded
  show ?thesis by (simp add: usage_failure_def)
qed

text \<open>
  C8, as stated, fails: without a backing file the run with no arguments prints nothing
  to standard output and ends with exit status 1.
\<close>

theorem main_no_arguments_counterexample:
  "main [] Map.empty
   = \<lparr>stdout = [], stderr = [Traceback FileNotFoundError], exit_code = 1,
      file_system = Map.empty\<rparr>"
  by (simp add: main_def read_inventory_def)

text \<open>
  C8, amended. A run with no arguments never writes the backing file. When the loader
  succeeds, the run prints the loaded inventory, as it is in memory, to standard output
  and exits with status 0; when the loader raises, the run ends with that exception and
  a non-zero exit status.
\<close>

theorem main_no_arguments:
  "main [] fs =
     (case read_inventory ''inventory.csv'' fs of
        Inl e \<Rightarrow> \<lparr>stdout = [], stderr = [Traceback e], exit_code = 1, file_system = fs\<rparr>
      | Inr inventory_data \<Rightarrow>
          \<lparr>stdout = [Repr_inventory inventory_data], stderr = [], exit_code = 0,
           file_system = fs\<rparr>)
   \<and> file_system (main [] fs) = fs"
proof -
  have "parse_args setup_cli [] = Parsed Map.empty []"
    by (simp add: parse_args_def)
  then show ?thesis by (simp add: main_def split: sum.splits)
qed

theorem main_no_arguments_witness:
  "main [] [''inventory.csv'' \<mapsto>
       ''Name,Management IP,Username,Password,Description'' @ [LF] @
       ''Router1,10.0.0.1,admin,pass123,Core router'' @ [LF]]
   = \<lparr>stdout = [Repr_inventory
         [dict [(''Name'', Some ''Router1''), (''Management IP'', Some ''10.0.0.1''),
                (''Username'', Some ''admin''), (''Password'', Some ''pass123''),
                (''Description'', Some ''Core router'')]]],
      stderr = [], exit_code = 0,
      file_system = [''inventory.csv'' \<mapsto>
       ''Name,Management IP,Username,Password,Description'' @ [LF] @
       ''Router1,10.0.0.1,admin,pass123,Core router'' @ [LF]]\<rparr>"
proof -
  have "read_inventory ''inventory.csv'' [''inventory.csv'' \<mapsto>
       ''Name,Management IP,Username,Password,Description'' @ [LF] @
       ''Router1,10.0.0.1,admin,pass123,Core router'' @ [LF]]
     = Inr [dict [(''Name'', Some ''Router1''), (''Management IP'', Some ''10.0.0.1''),
                (''Username'', Some ''admin''), (''Password'', Some ''pass123''),
                (''Description'', Some ''Core router'')]]"
    by (simp add: read_inventory_def parse_reset_def machine_defs field_limit_def
        dict_reader_def row_dict_def)
  with main_no_arguments [of "[''inventory.csv'' \<mapsto>
       ''Name,Management IP,Username,Password,Description'' @ [LF] @
       ''Router1,10.0.0.1,admin,pass123,Core router'' @ [LF]]"]
  show ?thesis by simp
qed

end
